theory Spec2Isabelle
  imports Complex_Main
begin

section \<open>Data model of the mind-map canvas\<close>

text \<open>
  The component \<open>MindMapCanvas\<close> exists in two variants: the two-click "Connect"
  variant (\<^verbatim>\<open>src/unnamed/part_007\<close>, from line 371) and the drag-to-connect variant
  (\<^verbatim>\<open>src/unnamed/part_008\<close>). Both keep their graph in a cytoscape instance and the
  interaction state in React state variables. Node data is the object
  \<^verbatim>\<open>{ id, label, type }\<close>, an edge is \<^verbatim>\<open>{ id, source, target }\<close>; ids and labels
  are strings. Node data is kept by value: what a state variable or a call of the
  host's callback holds is the data as it was when it was taken from the node.
\<close>

datatype node_type = Root | Primary | Secondary | Accent

record point =
  pos_x :: real
  pos_y :: real

record node_data =
  nd_id :: string
  nd_label :: string
  nd_type :: node_type

record node =
  data :: node_data
  position :: point

record edge =
  edge_id :: string
  source :: string
  target :: string

record graph =
  nodes :: "node list"
  edges :: "edge list"

section \<open>The graph library, as the component uses it\<close>

text \<open>
  The operations of cytoscape that the component calls, on the graph as a list of nodes
  and a list of edges in the order of insertion. The library is a dependency: its code
  is not in the repository, and each operation is written from what the specification
  says of the graph and from the library's documented behaviour. The ids the component
  passes in selectors hold no quote and no backslash, so a selector reads as it is
  written.
\<close>

definition has_node :: "graph \<Rightarrow> string \<Rightarrow> bool" where
  "has_node g i = (i \<in> set (map (nd_id \<circ> data) (nodes g)))"

definition hasElementWithId :: "graph \<Rightarrow> string \<Rightarrow> bool" where
  "hasElementWithId g i = (has_node g i \<or> i \<in> set (map edge_id (edges g)))"

text \<open>
  Modelled from the spec: \<^verbatim>\<open>cy.add({ data: { id, label, type }, position })\<close> of the
  library. A node id is "unique within a graph instance": the library refuses an element
  whose id is already taken by an element of the graph (it reports the error on the
  console and skips the element).
\<close>

definition cy_add_node :: "graph \<Rightarrow> node \<Rightarrow> graph" where
  "cy_add_node g n =
     (if hasElementWithId g (nd_id (data n)) then g else g\<lparr>nodes := nodes g @ [n]\<rparr>)"

text \<open>
  Modelled from the spec: \<^verbatim>\<open>cy.add({ data: { id, source, target } })\<close> of the library.
  Source and target "must reference existing nodes": an edge is refused as well when
  its source or its target is not a node of the graph. An edge from a node to itself is
  accepted.
\<close>

definition cy_add_edge :: "graph \<Rightarrow> edge \<Rightarrow> graph" where
  "cy_add_edge g e =
     (if hasElementWithId g (edge_id e) \<or> \<not> has_node g (source e) \<or> \<not> has_node g (target e)
      then g else g\<lparr>edges := edges g @ [e]\<rparr>)"

text \<open>
  Modelled from the spec: the library's selection
  \<^verbatim>\<open>cy.edges('[source="s"][target="t"], [source="t"][target="s"]')\<close>, the edges that
  run from \<open>s\<close> to \<open>t\<close> or from \<open>t\<close> to \<open>s\<close> ("checking both directions").
\<close>

definition cy_edges :: "graph \<Rightarrow> string \<Rightarrow> string \<Rightarrow> edge list" where
  "cy_edges g s t =
     filter (\<lambda>e. (source e = s \<and> target e = t) \<or> (source e = t \<and> target e = s)) (edges g)"

text \<open>
  Modelled from the spec: \<^verbatim>\<open>cy.remove('#i')\<close> of the library, which removes the
  element with id \<open>i\<close>. The removal of a node "removes the node and, as a side effect,
  all edges referencing it (cascade)".
\<close>

definition cy_remove :: "graph \<Rightarrow> string \<Rightarrow> graph" where
  "cy_remove g i =
     (if has_node g i
      then g\<lparr>nodes := filter (\<lambda>n. nd_id (data n) \<noteq> i) (nodes g),
             edges := filter (\<lambda>e. edge_id e \<noteq> i \<and> source e \<noteq> i \<and> target e \<noteq> i) (edges g)\<rparr>
      else g\<lparr>edges := filter (\<lambda>e. edge_id e \<noteq> i) (edges g)\<rparr>)"

text \<open>
  Modelled from the spec: \<^verbatim>\<open>cy.$('#i').data('label', text)\<close> of the library, which sets
  the label of the element with id \<open>i\<close>. Edges of this program carry no label.
\<close>

definition cy_set_label :: "graph \<Rightarrow> string \<Rightarrow> string \<Rightarrow> graph" where
  "cy_set_label g i text =
     g\<lparr>nodes := map (\<lambda>n. if nd_id (data n) = i then n\<lparr>data := (data n)\<lparr>nd_label := text\<rparr>\<rparr> else n)
                    (nodes g)\<rparr>"

text \<open>The elements the instance is created with: the root node alone.\<close>

definition initial_elements :: graph where
  "initial_elements =
     \<lparr>nodes = [\<lparr>data = \<lparr>nd_id = ''root'', nd_label = ''Main Idea'', nd_type = Root\<rparr>,
                position = \<lparr>pos_x = 400, pos_y = 300\<rparr>\<rparr>],
      edges = []\<rparr>"

section \<open>Strings\<close>

text \<open>\<^verbatim>\<open>`${Date.now()}`\<close>: the decimal digits of a natural number.\<close>

definition digit_char :: "nat \<Rightarrow> char" where
  "digit_char d = ''0123456789'' ! d"

fun string_of_nat :: "nat \<Rightarrow> string" where
  "string_of_nat n =
     (if n < 10 then [digit_char n] else string_of_nat (n div 10) @ [digit_char (n mod 10)])"

declare string_of_nat.simps [simp del]

text \<open>
  \<^verbatim>\<open>String.prototype.trim\<close> strips white space and line terminators from both ends;
  these are the ones among the code units below 256.
\<close>

definition is_space :: "char \<Rightarrow> bool" where
  "is_space c = ((of_char c :: nat) \<in> {9, 10, 11, 12, 13, 32, 160})"

definition trim :: "string \<Rightarrow> string" where
  "trim s = rev (dropWhile is_space (rev (dropWhile is_space s)))"

definition node_name :: "nat \<Rightarrow> string" where
  "node_name now = ''node-'' @ string_of_nat now"

definition edge_name :: "string \<Rightarrow> string \<Rightarrow> string" where
  "edge_name s t = ''edge-'' @ s @ ''-'' @ t"

section \<open>Component state\<close>

text \<open>
  The state variables that both variants declare with \<^verbatim>\<open>useState\<close>. \<open>cy\<close> is
  \<^verbatim>\<open>null\<close> until the mount effect has stored the instance; the graph of the instance
  is kept in its place. \<open>notified\<close> records the arguments of the calls
  \<^verbatim>\<open>onNodeSelect?.(v)\<close>, oldest first (\<open>None\<close> is \<^verbatim>\<open>null\<close>); they reach the
  host when it passed a callback.

  The component has handlers of two kinds. The functions that the toolbar and the edit
  dialog call (\<^verbatim>\<open>addNode\<close>, \<^verbatim>\<open>deleteSelected\<close>, \<^verbatim>\<open>startEditing\<close>, \<^verbatim>\<open>saveEdit\<close>,
  \<^verbatim>\<open>startConnecting\<close>, \<^verbatim>\<open>cancelConnecting\<close>, \<^verbatim>\<open>runLayout\<close>) are created by every render,
  and so is \<^verbatim>\<open>createEdge\<close>: called from them, they read the values the state variables
  have when the event arrives. They are functions from the state to the state.

  The handlers of the graph's events (\<^verbatim>\<open>tap\<close>, \<^verbatim>\<open>mousedown\<close>, \<^verbatim>\<open>mousemove\<close>,
  \<^verbatim>\<open>mouseup\<close>) are registered on the instance by the mount effect. They are closures
  of the render in which the effect ran: until the effect runs again they read the
  values that the state variables, and \<^verbatim>\<open>createEdge\<close>, had in that render, while their
  setters act on the current state. The effect runs again when a value of its dependency
  list has changed; its cleanup then destroys the instance, and its body creates a new
  instance from the initial elements and registers the closures of the new render.
\<close>

record canvas =
  cy :: "graph option"
  selectedNode :: "node_data option"
  isEditing :: bool
  editText :: string
  notified :: "node_data option list"

text \<open>The two-click variant adds the connection mode.\<close>

record connect_canvas = canvas +
  isConnecting :: bool
  firstNode :: "node_data option"

text \<open>The drag variant adds the drag state.\<close>

record drag_start =
  start_x :: real
  start_y :: real
  nodeId :: string

record drag_canvas = canvas +
  isDragging :: bool
  dragStart :: "drag_start option"
  dragEnd :: "point option"

definition onNodeSelect :: "node_data option \<Rightarrow> 'a canvas_scheme \<Rightarrow> 'a canvas_scheme" where
  "onNodeSelect v s = s\<lparr>notified := notified s @ [v]\<rparr>"

section \<open>Operations shared by both variants\<close>

definition createEdge :: "string \<Rightarrow> string \<Rightarrow> 'a canvas_scheme \<Rightarrow> 'a canvas_scheme" where
  "createEdge sourceId targetId s =
     (case cy s of
        None \<Rightarrow> s
      | Some g \<Rightarrow>
          if length (cy_edges g sourceId targetId) > 0 then s
          else s\<lparr>cy := Some (cy_add_edge g
                 \<lparr>edge_id = edge_name sourceId targetId, source = sourceId, target = targetId\<rparr>)\<rparr>)"

definition deleteSelected :: "'a canvas_scheme \<Rightarrow> 'a canvas_scheme" where
  "deleteSelected s =
     (case cy s of
        None \<Rightarrow> s
      | Some g \<Rightarrow>
          (case selectedNode s of
             None \<Rightarrow> s
           | Some sel \<Rightarrow>
               onNodeSelect None (s\<lparr>cy := Some (cy_remove g (nd_id sel)), selectedNode := None\<rparr>)))"

definition startEditing :: "'a canvas_scheme \<Rightarrow> 'a canvas_scheme" where
  "startEditing s =
     (case selectedNode s of
        None \<Rightarrow> s
      | Some sel \<Rightarrow> s\<lparr>editText := nd_label sel, isEditing := True\<rparr>)"

definition saveEdit :: "'a canvas_scheme \<Rightarrow> 'a canvas_scheme" where
  "saveEdit s =
     (case cy s of
        None \<Rightarrow> s
      | Some g \<Rightarrow>
          (case selectedNode s of
             None \<Rightarrow> s
           | Some sel \<Rightarrow>
               if trim (editText s) = [] then s
               else s\<lparr>cy := Some (cy_set_label g (nd_id sel) (trim (editText s))),
                      isEditing := False,
                      editText := [],
                      selectedNode := Some (sel\<lparr>nd_label := trim (editText s)\<rparr>)\<rparr>))"

text \<open>The input's \<^verbatim>\<open>onChange\<close>, and Escape or Cancel in the edit dialog.\<close>

definition setEditText :: "string \<Rightarrow> 'a canvas_scheme \<Rightarrow> 'a canvas_scheme" where
  "setEditText v s = s\<lparr>editText := v\<rparr>"

definition cancelEdit :: "'a canvas_scheme \<Rightarrow> 'a canvas_scheme" where
  "cancelEdit s = s\<lparr>isEditing := False\<rparr>"

text \<open>
  \<open>runLayout\<close> hands the graph to the library's hierarchical layout, which moves nodes
  and nothing else; \<open>place\<close> is the position the layout gives to each node.
\<close>

definition runLayout :: "(node \<Rightarrow> point) \<Rightarrow> 'a canvas_scheme \<Rightarrow> 'a canvas_scheme" where
  "runLayout place s =
     (case cy s of
        None \<Rightarrow> s
      | Some g \<Rightarrow> s\<lparr>cy := Some (g\<lparr>nodes := map (\<lambda>n. n\<lparr>position := place n\<rparr>) (nodes g)\<rparr>)\<rparr>)"

text \<open>
  The node that \<open>addNode\<close> inserts. \<open>now\<close> is the value of \<^verbatim>\<open>Date.now()\<close>, \<open>rx\<close>
  and \<open>ry\<close> are the two values of \<^verbatim>\<open>Math.random()\<close>; \<open>selected\<close> says whether
  a node is selected. The \<^verbatim>\<open>preset\<close> layout that \<open>addNode\<close> runs at its end leaves
  every node at its position.
\<close>

definition new_node :: "bool \<Rightarrow> node_type \<Rightarrow> nat \<Rightarrow> real \<Rightarrow> real \<Rightarrow> node" where
  "new_node selected ty now rx ry =
     \<lparr>data = \<lparr>nd_id = node_name now, nd_label = ''New Idea'', nd_type = ty\<rparr>,
      position = (if selected then \<lparr>pos_x = rx * 200 + 300, pos_y = ry * 200 + 200\<rparr>
                  else \<lparr>pos_x = rx * 600 + 200, pos_y = ry * 400 + 150\<rparr>)\<rparr>"

text \<open>
  One call of \<open>addNode\<close>: its argument and the values the clock and the random
  generator give it.
\<close>

record add_call =
  call_type :: node_type
  call_now :: nat
  call_rx :: real
  call_ry :: real

section \<open>The two-click variant\<close>

text \<open>
  The first render, and the body of the mount effect: it creates the instance from the
  initial elements and stores it.
\<close>

definition connect_initial :: connect_canvas where
  "connect_initial =
     \<lparr>cy = None, selectedNode = None, isEditing = False, editText = [], notified = [],
      isConnecting = False, firstNode = None\<rparr>"

definition connect_mount :: "connect_canvas \<Rightarrow> connect_canvas" where
  "connect_mount s = s\<lparr>cy := Some initial_elements\<rparr>"

text \<open>
  The handler of \<^verbatim>\<open>tap\<close> on a node that the effect registers when it runs in render
  \<open>r\<close>; \<open>nodeData\<close> is the data of the tapped node and \<open>s\<close> the state when the tap
  arrives. The dependency list of the effect is \<^verbatim>\<open>[onNodeSelect]\<close>, so the handler stays
  registered while \<open>isConnecting\<close> and \<open>firstNode\<close> change: it tests the values of \<open>r\<close>.
  Its setters and the callback act on the current state.

  The handler's \<^verbatim>\<open>createEdge\<close> is the one of render \<open>r\<close> and works on \<open>cy r\<close>. In the
  first render this is \<^verbatim>\<open>null\<close> and \<^verbatim>\<open>createEdge\<close> returns at once. In a later render
  it is the instance that this run of the effect has replaced and that its cleanup has
  destroyed. In neither case does the call reach the graph of the current instance.
  \<open>threw\<close> says whether the library's call on the destroyed instance throws: the
  handler then ends before its setters.
\<close>

definition tap_node_of :: "connect_canvas \<Rightarrow> bool \<Rightarrow> node_data \<Rightarrow> connect_canvas \<Rightarrow> connect_canvas" where
  "tap_node_of r threw nodeData s =
     (if isConnecting r then
        (case firstNode r of
           None \<Rightarrow> onNodeSelect (Some nodeData) (s\<lparr>firstNode := Some nodeData, selectedNode := Some nodeData\<rparr>)
         | Some first \<Rightarrow>
             if nd_id first \<noteq> nd_id nodeData then
               (if cy r \<noteq> None \<and> threw then s
                else onNodeSelect (Some nodeData)
                       (s\<lparr>isConnecting := False, firstNode := None, selectedNode := Some nodeData\<rparr>))
             else s)
      else onNodeSelect (Some nodeData) (s\<lparr>selectedNode := Some nodeData\<rparr>))"

text \<open>
  The handler of \<^verbatim>\<open>tap\<close> when the target is the canvas itself, registered in render \<open>r\<close>.
\<close>

definition tap_background_of :: "connect_canvas \<Rightarrow> connect_canvas \<Rightarrow> connect_canvas" where
  "tap_background_of r s =
     onNodeSelect None
       ((if isConnecting r then s\<lparr>isConnecting := False, firstNode := None\<rparr> else s)
          \<lparr>selectedNode := None\<rparr>)"

text \<open>
  The two handlers that the mount registers, in the first render. They are the handlers
  of the instance for as long as the host passes the same callback, or none.
\<close>

definition tap_node :: "node_data \<Rightarrow> connect_canvas \<Rightarrow> connect_canvas" where
  "tap_node nodeData s = tap_node_of connect_initial False nodeData s"

definition tap_background :: "connect_canvas \<Rightarrow> connect_canvas" where
  "tap_background s = tap_background_of connect_initial s"

definition addNode :: "node_type \<Rightarrow> nat \<Rightarrow> real \<Rightarrow> real \<Rightarrow> connect_canvas \<Rightarrow> connect_canvas" where
  "addNode ty now rx ry s =
     (case cy s of
        None \<Rightarrow> s
      | Some g \<Rightarrow>
          (let s1 = s\<lparr>cy := Some (cy_add_node g (new_node (selectedNode s \<noteq> None) ty now rx ry))\<rparr>
           in case selectedNode s of
                None \<Rightarrow> s1
              | Some sel \<Rightarrow> if \<not> isConnecting s then createEdge (nd_id sel) (node_name now) s1 else s1))"

definition startConnecting :: "connect_canvas \<Rightarrow> connect_canvas" where
  "startConnecting s =
     onNodeSelect None (s\<lparr>isConnecting := True, firstNode := None, selectedNode := None\<rparr>)"

definition cancelConnecting :: "connect_canvas \<Rightarrow> connect_canvas" where
  "cancelConnecting s = s\<lparr>isConnecting := False, firstNode := None\<rparr>"

section \<open>The drag variant\<close>

text \<open>
  The dependency list of the mount effect is
  \<^verbatim>\<open>[onNodeSelect, isDragging, dragStart]\<close>. The handlers are therefore registered anew
  whenever \<open>isDragging\<close> or \<open>dragStart\<close> changes, and read the current values of the
  two. Every such change also destroys the instance and creates a new one from the
  initial elements: this is \<open>drag_mount\<close>, the body of the effect, applied to the state
  the setters have left.
\<close>

definition drag_initial :: drag_canvas where
  "drag_initial =
     \<lparr>cy = None, selectedNode = None, isEditing = False, editText = [], notified = [],
      isDragging = False, dragStart = None, dragEnd = None\<rparr>"

definition drag_mount :: "drag_canvas \<Rightarrow> drag_canvas" where
  "drag_mount s = s\<lparr>cy := Some initial_elements\<rparr>"

definition resetDragState :: "drag_canvas \<Rightarrow> drag_canvas" where
  "resetDragState s = s\<lparr>isDragging := False, dragStart := None, dragEnd := None\<rparr>"

definition drag_tap_node :: "node_data \<Rightarrow> drag_canvas \<Rightarrow> drag_canvas" where
  "drag_tap_node nodeData s =
     (if \<not> isDragging s then onNodeSelect (Some nodeData) (s\<lparr>selectedNode := Some nodeData\<rparr>)
      else s)"

definition drag_tap_background :: "drag_canvas \<Rightarrow> drag_canvas" where
  "drag_tap_background s =
     (if \<not> isDragging s then onNodeSelect None (s\<lparr>selectedNode := None\<rparr>) else s)"

text \<open>
  \<^verbatim>\<open>mousedown\<close> on a node; \<open>p\<close> is the node's rendered position. \<^verbatim>\<open>setDragStart\<close>
  receives a new object, so \<open>dragStart\<close> changes at every \<^verbatim>\<open>mousedown\<close> and the effect
  runs again.
\<close>

definition mousedown_node :: "node_data \<Rightarrow> point \<Rightarrow> drag_canvas \<Rightarrow> drag_canvas" where
  "mousedown_node nodeData p s =
     drag_mount
       (s\<lparr>isDragging := True,
          dragStart := Some \<lparr>start_x = pos_x p, start_y = pos_y p, nodeId = nd_id nodeData\<rparr>,
          dragEnd := Some \<lparr>pos_x = pos_x p, pos_y = pos_y p\<rparr>\<rparr>)"

text \<open>
  \<^verbatim>\<open>mousemove\<close>; \<open>client\<close> is the pointer in client coordinates and \<open>rect\<close> the
  left and top of the container's bounding rectangle, when the container exists.
  Only \<open>dragEnd\<close> changes, which is not in the dependency list.
\<close>

definition mousemove :: "point \<Rightarrow> point option \<Rightarrow> drag_canvas \<Rightarrow> drag_canvas" where
  "mousemove client rect s =
     (if isDragging s \<and> dragStart s \<noteq> None then
        (case rect of
           None \<Rightarrow> s
         | Some r \<Rightarrow> s\<lparr>dragEnd := Some \<lparr>pos_x = pos_x client - pos_x r, pos_y = pos_y client - pos_y r\<rparr>\<rparr>)
      else s)"

text \<open>
  \<^verbatim>\<open>mouseup\<close> on a node. The handler's \<^verbatim>\<open>createEdge\<close> is the one of the render in
  which the effect ran; the \<open>cy\<close> of that render is the instance that this run of the
  effect has replaced and that its cleanup has destroyed (the handler reaches the call
  only with \<open>isDragging\<close> true, that is after a \<^verbatim>\<open>mousedown\<close> has made the effect run
  again). The call does not reach the graph of the current instance. \<open>threw\<close> says
  whether the library's call on the destroyed instance throws: the handler then ends
  before \<^verbatim>\<open>resetDragState\<close>. \<^verbatim>\<open>resetDragState\<close> changes \<open>isDragging\<close>, so the effect
  runs again.
\<close>

definition mouseup_node :: "bool \<Rightarrow> node_data \<Rightarrow> drag_canvas \<Rightarrow> drag_canvas" where
  "mouseup_node threw targetData s =
     (if isDragging s then
        (case dragStart s of
           None \<Rightarrow> s
         | Some d \<Rightarrow>
             if nodeId d \<noteq> nd_id targetData \<and> threw then s
             else drag_mount (resetDragState s))
      else s)"

text \<open>\<^verbatim>\<open>mouseup\<close> when the target is the canvas itself.\<close>

definition mouseup_background :: "drag_canvas \<Rightarrow> drag_canvas" where
  "mouseup_background s = (if isDragging s then drag_mount (resetDragState s) else s)"

definition drag_addNode :: "node_type \<Rightarrow> nat \<Rightarrow> real \<Rightarrow> real \<Rightarrow> drag_canvas \<Rightarrow> drag_canvas" where
  "drag_addNode ty now rx ry s =
     (case cy s of
        None \<Rightarrow> s
      | Some g \<Rightarrow>
          (let s1 = s\<lparr>cy := Some (cy_add_node g (new_node (selectedNode s \<noteq> None) ty now rx ry))\<rparr>
           in case selectedNode s of
                None \<Rightarrow> s1
              | Some sel \<Rightarrow> if \<not> isDragging s then createEdge (nd_id sel) (node_name now) s1 else s1))"

section \<open>Well-formed graphs and reachable states\<close>

text \<open>
  The ids the component gives to nodes are \<^verbatim>\<open>root\<close> and \<^verbatim>\<open>node-\<close> followed by digits.
\<close>

definition is_digit :: "char \<Rightarrow> bool" where
  "is_digit c = (c \<in> set ''0123456789'')"

definition is_node_id :: "string \<Rightarrow> bool" where
  "is_node_id i =
     (i = ''root'' \<or> (take 5 i = ''node-'' \<and> drop 5 i \<noteq> [] \<and> list_all is_digit (drop 5 i)))"

text \<open>
  A well-formed graph: node ids are pairwise different and of the component's shape;
  every edge joins two nodes of the graph, is named after them, and is the only edge
  between them in either direction.
\<close>

definition graph_inv :: "graph \<Rightarrow> bool" where
  "graph_inv g =
     (distinct (map (nd_id \<circ> data) (nodes g)) \<and>
      (\<forall>n \<in> set (nodes g). is_node_id (nd_id (data n))) \<and>
      (\<forall>e \<in> set (edges g).
         has_node g (source e) \<and> has_node g (target e) \<and>
         edge_id e = edge_name (source e) (target e) \<and>
         cy_edges g (source e) (target e) = [e]))"

text \<open>The edges of a graph that join a node to itself.\<close>

definition self_loops :: "graph \<Rightarrow> edge list" where
  "self_loops g = filter (\<lambda>e. source e = target e) (edges g)"

text \<open>A mounted component whose graph is well formed.\<close>

definition canvas_ok :: "'a canvas_scheme \<Rightarrow> bool" where
  "canvas_ok s = (case cy s of None \<Rightarrow> False | Some g \<Rightarrow> graph_inv g)"

text \<open>
  The states of the two-click variant that a session can be in. \<open>connect_reachable r s\<close>:
  the handlers registered on the instance are those of render \<open>r\<close>, and the state is \<open>s\<close>.
  The component mounts with the handlers of the first render. A tap carries the data
  of a node of the graph and is answered by the registered handler; the functions of
  the toolbar read the current state. When the host passes another callback the effect
  runs again in the current render (\<open>cr_remount\<close>): the handlers are then those of that
  render and the instance is a new one.
\<close>

inductive connect_reachable :: "connect_canvas \<Rightarrow> connect_canvas \<Rightarrow> bool" where
  cr_mount: "connect_reachable connect_initial (connect_mount connect_initial)"
| cr_remount: "connect_reachable r s \<Longrightarrow> connect_reachable s (connect_mount s)"
| cr_tap_node:
    "connect_reachable r s \<Longrightarrow> cy s = Some g \<Longrightarrow> n \<in> set (nodes g) \<Longrightarrow>
     connect_reachable r (tap_node_of r threw (data n) s)"
| cr_tap_background: "connect_reachable r s \<Longrightarrow> connect_reachable r (tap_background_of r s)"
| cr_addNode: "connect_reachable r s \<Longrightarrow> connect_reachable r (addNode ty now rx ry s)"
| cr_deleteSelected: "connect_reachable r s \<Longrightarrow> connect_reachable r (deleteSelected s)"
| cr_startEditing: "connect_reachable r s \<Longrightarrow> connect_reachable r (startEditing s)"
| cr_setEditText: "connect_reachable r s \<Longrightarrow> connect_reachable r (setEditText v s)"
| cr_saveEdit: "connect_reachable r s \<Longrightarrow> connect_reachable r (saveEdit s)"
| cr_cancelEdit: "connect_reachable r s \<Longrightarrow> connect_reachable r (cancelEdit s)"
| cr_startConnecting: "connect_reachable r s \<Longrightarrow> connect_reachable r (startConnecting s)"
| cr_cancelConnecting: "connect_reachable r s \<Longrightarrow> connect_reachable r (cancelConnecting s)"
| cr_runLayout: "connect_reachable r s \<Longrightarrow> connect_reachable r (runLayout place s)"

text \<open>
  The same for the drag variant, whose handlers read the current drag state; the
  effect also runs again when the host passes another callback (\<open>dr_remount\<close>).
\<close>

inductive drag_reachable :: "drag_canvas \<Rightarrow> bool" where
  dr_mount: "drag_reachable (drag_mount drag_initial)"
| dr_remount: "drag_reachable s \<Longrightarrow> drag_reachable (drag_mount s)"
| dr_tap_node:
    "drag_reachable s \<Longrightarrow> cy s = Some g \<Longrightarrow> n \<in> set (nodes g) \<Longrightarrow>
     drag_reachable (drag_tap_node (data n) s)"
| dr_tap_background: "drag_reachable s \<Longrightarrow> drag_reachable (drag_tap_background s)"
| dr_mousedown_node:
    "drag_reachable s \<Longrightarrow> cy s = Some g \<Longrightarrow> n \<in> set (nodes g) \<Longrightarrow>
     drag_reachable (mousedown_node (data n) p s)"
| dr_mousemove: "drag_reachable s \<Longrightarrow> drag_reachable (mousemove client rect s)"
| dr_mouseup_node:
    "drag_reachable s \<Longrightarrow> cy s = Some g \<Longrightarrow> n \<in> set (nodes g) \<Longrightarrow>
     drag_reachable (mouseup_node threw (data n) s)"
| dr_mouseup_background: "drag_reachable s \<Longrightarrow> drag_reachable (mouseup_background s)"
| dr_addNode: "drag_reachable s \<Longrightarrow> drag_reachable (drag_addNode ty now rx ry s)"
| dr_deleteSelected: "drag_reachable s \<Longrightarrow> drag_reachable (deleteSelected s)"
| dr_startEditing: "drag_reachable s \<Longrightarrow> drag_reachable (startEditing s)"
| dr_setEditText: "drag_reachable s \<Longrightarrow> drag_reachable (setEditText v s)"
| dr_saveEdit: "drag_reachable s \<Longrightarrow> drag_reachable (saveEdit s)"
| dr_cancelEdit: "drag_reachable s \<Longrightarrow> drag_reachable (cancelEdit s)"
| dr_runLayout: "drag_reachable s \<Longrightarrow> drag_reachable (runLayout place s)"

section \<open>Strings and well-formed graphs: supporting lemmas\<close>

lemma string_of_nat_nonempty: "string_of_nat n \<noteq> []"
  by (subst string_of_nat.simps) simp

lemma digit_char_inj: "a < 10 \<Longrightarrow> b < 10 \<Longrightarrow> digit_char a = digit_char b \<Longrightarrow> a = b"
  unfolding digit_char_def
  by (subst (asm) nth_eq_iff_index_eq) simp_all

lemma digit_char_is_digit: "d < 10 \<Longrightarrow> is_digit (digit_char d)"
  unfolding digit_char_def is_digit_def by (rule nth_mem) simp

lemma digits_string_of_nat: "list_all is_digit (string_of_nat n)"
proof (induction n rule: string_of_nat.induct)
  case (1 n)
  show ?case
  proof (cases "n < 10")
    case True
    then show ?thesis by (subst string_of_nat.simps) (simp add: digit_char_is_digit)
  next
    case False
    with 1 show ?thesis by (subst string_of_nat.simps) (simp add: digit_char_is_digit)
  qed
qed

lemma string_of_nat_inj: "string_of_nat n = string_of_nat m \<Longrightarrow> n = m"
proof (induction n arbitrary: m rule: string_of_nat.induct)
  case (1 n)
  show ?case
  proof (cases "n < 10")
    case True
    note n = this
    show ?thesis
    proof (cases "m < 10")
      case True
      with n 1(2) show ?thesis
        by (subst (asm) string_of_nat.simps, subst (asm) (2) string_of_nat.simps)
           (simp add: digit_char_inj)
    next
      case False
      have "length (string_of_nat m) \<ge> 2"
        using False string_of_nat_nonempty[of "m div 10"]
        by (subst string_of_nat.simps) (cases "string_of_nat (m div 10)"; simp)
      moreover have "length (string_of_nat n) = 1"
        using n by (subst string_of_nat.simps) simp
      ultimately show ?thesis using 1(2) by simp
    qed
  next
    case False
    note n = this
    show ?thesis
    proof (cases "m < 10")
      case True
      have "length (string_of_nat n) \<ge> 2"
        using n string_of_nat_nonempty[of "n div 10"]
        by (subst string_of_nat.simps) (cases "string_of_nat (n div 10)"; simp)
      moreover have "length (string_of_nat m) = 1"
        using True by (subst string_of_nat.simps) simp
      ultimately show ?thesis using 1(2) by simp
    next
      case False
      have en: "string_of_nat n = string_of_nat (n div 10) @ [digit_char (n mod 10)]"
        using n by (subst string_of_nat.simps) simp
      have em: "string_of_nat m = string_of_nat (m div 10) @ [digit_char (m mod 10)]"
        using False by (subst string_of_nat.simps) simp
      from 1(2) en em have a: "string_of_nat (n div 10) = string_of_nat (m div 10)"
        and b: "digit_char (n mod 10) = digit_char (m mod 10)" by simp_all
      from 1(1)[OF n a] have "n div 10 = m div 10" .
      moreover from b have "n mod 10 = m mod 10" by (simp add: digit_char_inj)
      ultimately show ?thesis by (metis div_mult_mod_eq)
    qed
  qed
qed


lemma dash_not_digit: "\<not> is_digit CHR ''-''"
  by (simp add: is_digit_def)

lemma digit_not_dash: "list_all is_digit d \<Longrightarrow> CHR ''-'' \<notin> set d"
  using dash_not_digit by (auto simp only: list_all_iff)

lemma dash_split_unique:
  "CHR ''-'' \<notin> set d \<Longrightarrow> CHR ''-'' \<notin> set d' \<Longrightarrow> d @ CHR ''-'' # t = d' @ CHR ''-'' # t' \<Longrightarrow>
   d = d' \<and> t = t'"
proof (induction d arbitrary: d')
  case Nil
  then show ?case by (cases d') simp_all
next
  case (Cons c d)
  show ?case
  proof (cases d')
    case Nil
    with Cons.prems show ?thesis by simp
  next
    case (Cons c' d'')
    with Cons.prems have "c = c'" and "d @ CHR ''-'' # t = d'' @ CHR ''-'' # t'"
      and "CHR ''-'' \<notin> set d" and "CHR ''-'' \<notin> set d''" by simp_all
    with Cons.IH[of d''] Cons show ?thesis by simp
  qed
qed

lemma node_name_is_node_id: "is_node_id (node_name now)"
  by (simp add: is_node_id_def node_name_def string_of_nat_nonempty digits_string_of_nat)

lemma node_name_inj: "node_name a = node_name b \<Longrightarrow> a = b"
  by (simp add: node_name_def string_of_nat_inj)

lemma edge_name_not_node_id: "is_node_id i \<Longrightarrow> edge_name s t \<noteq> i"
  by (auto simp: is_node_id_def edge_name_def)

lemma node_id_cases:
  assumes "is_node_id i"
  obtains "i = ''root''" | d where "i = ''node-'' @ d" "CHR ''-'' \<notin> set d"
proof (cases "i = ''root''")
  case True
  then show ?thesis by (rule that(1))
next
  case False
  with assms have a: "take 5 i = ''node-''" and b: "list_all is_digit (drop 5 i)"
    by (simp_all add: is_node_id_def)
  have "i = take 5 i @ drop 5 i" by simp
  with a have "i = ''node-'' @ drop 5 i" by metis
  moreover from b have "CHR ''-'' \<notin> set (drop 5 i)" by (rule digit_not_dash)
  ultimately show ?thesis by (rule that(2))
qed

lemma edge_name_inj:
  assumes "is_node_id s" "is_node_id s'" "edge_name s t = edge_name s' t'"
  shows "s = s' \<and> t = t'"
proof -
  from assms(3) have eq: "s @ CHR ''-'' # t = s' @ CHR ''-'' # t'"
    by (simp add: edge_name_def)
  from assms(1) show ?thesis
  proof (cases rule: node_id_cases)
    case 1
    note s = this
    from assms(2) show ?thesis
    proof (cases rule: node_id_cases)
      case 1
      with s eq show ?thesis by simp
    next
      case (2 d')
      with s eq show ?thesis by simp
    qed
  next
    case (2 d)
    note s = this
    from assms(2) show ?thesis
    proof (cases rule: node_id_cases)
      case 1
      with s eq show ?thesis by simp
    next
      case (2 d')
      with s eq have "d @ CHR ''-'' # t = d' @ CHR ''-'' # t'" by simp
      with s(2) 2(2) have "d = d' \<and> t = t'" by (rule dash_split_unique)
      with s(1) 2(1) show ?thesis by simp
    qed
  qed
qed


subsection \<open>Graphs\<close>

lemma has_node_iff: "has_node g i \<longleftrightarrow> (\<exists>n \<in> set (nodes g). nd_id (data n) = i)"
  by (auto simp: has_node_def)

lemma cy_edges_sym: "cy_edges g a b = cy_edges g b a"
  unfolding cy_edges_def by (rule filter_cong) auto

lemma cy_edges_mem:
  "e \<in> set (cy_edges g a b) \<longleftrightarrow>
   e \<in> set (edges g) \<and> ((source e = a \<and> target e = b) \<or> (source e = b \<and> target e = a))"
  by (simp add: cy_edges_def)

lemma cy_edges_append:
  "cy_edges (g\<lparr>edges := edges g @ [e]\<rparr>) x y =
   cy_edges g x y @
   (if (source e = x \<and> target e = y) \<or> (source e = y \<and> target e = x) then [e] else [])"
  by (simp add: cy_edges_def)

lemma cy_edges_nodes_update: "cy_edges (g\<lparr>nodes := ns\<rparr>) x y = cy_edges g x y"
  by (simp add: cy_edges_def)

lemma has_node_edges_update: "has_node (g\<lparr>edges := es\<rparr>) i = has_node g i"
  by (simp add: has_node_def)

lemma graph_inv_initial: "graph_inv initial_elements"
  by (simp add: graph_inv_def initial_elements_def is_node_id_def)

lemma graph_inv_node_ids: "graph_inv g \<Longrightarrow> has_node g i \<Longrightarrow> is_node_id i"
  by (auto simp: graph_inv_def has_node_iff)

lemma graph_inv_at_most_one:
  assumes "graph_inv g"
  shows "length (cy_edges g a b) \<le> 1"
proof (cases "cy_edges g a b")
  case Nil
  then show ?thesis by simp
next
  case (Cons e es)
  then have "e \<in> set (cy_edges g a b)" by simp
  then have e: "e \<in> set (edges g)"
    and ab: "(source e = a \<and> target e = b) \<or> (source e = b \<and> target e = a)"
    by (simp_all add: cy_edges_mem)
  from assms e have "cy_edges g (source e) (target e) = [e]" by (simp add: graph_inv_def)
  with ab have "cy_edges g a b = [e]" using cy_edges_sym[of g a b] by auto
  then show ?thesis by simp
qed

lemma node_id_not_edge_id:
  assumes "graph_inv g" "is_node_id i"
  shows "i \<notin> set (map edge_id (edges g))"
proof
  assume "i \<in> set (map edge_id (edges g))"
  then obtain e where "e \<in> set (edges g)" "edge_id e = i" by auto
  with assms(1) have "edge_name (source e) (target e) = i" by (simp add: graph_inv_def)
  with assms(2) show False using edge_name_not_node_id by blast
qed

lemma graph_inv_add_node:
  assumes "graph_inv g" "is_node_id (nd_id (data n))"
  shows "graph_inv (cy_add_node g n)"
proof (cases "hasElementWithId g (nd_id (data n))")
  case True
  with assms(1) show ?thesis by (simp add: cy_add_node_def)
next
  case False
  then have fresh: "nd_id (data n) \<notin> set (map (nd_id \<circ> data) (nodes g))"
    by (simp add: hasElementWithId_def has_node_def)
  let ?g = "g\<lparr>nodes := nodes g @ [n]\<rparr>"
  have hn: "has_node g i \<Longrightarrow> has_node ?g i" for i by (simp add: has_node_def)
  have "graph_inv ?g"
    unfolding graph_inv_def
  proof (intro conjI ballI)
    show "distinct (map (nd_id \<circ> data) (nodes ?g))"
      using assms(1) fresh by (simp add: graph_inv_def)
    show "is_node_id (nd_id (data m))" if "m \<in> set (nodes ?g)" for m
      using that assms by (auto simp: graph_inv_def)
    fix e assume "e \<in> set (edges ?g)"
    then have e: "e \<in> set (edges g)" by simp
    with assms(1) show "has_node ?g (source e)" "has_node ?g (target e)"
      by (simp_all add: graph_inv_def hn)
    from e assms(1) show "edge_id e = edge_name (source e) (target e)"
      by (simp add: graph_inv_def)
    from e assms(1) show "cy_edges ?g (source e) (target e) = [e]"
      by (simp add: graph_inv_def cy_edges_nodes_update)
  qed
  with False show ?thesis by (simp add: cy_add_node_def)
qed

lemma edge_name_fresh:
  assumes inv: "graph_inv g" and a: "has_node g a" and b: "has_node g b"
    and none: "cy_edges g a b = []"
  shows "\<not> hasElementWithId g (edge_name a b)"
proof
  assume "hasElementWithId g (edge_name a b)"
  then consider "has_node g (edge_name a b)" | "edge_name a b \<in> set (map edge_id (edges g))"
    by (auto simp: hasElementWithId_def)
  then show False
  proof cases
    case 1
    with inv have "is_node_id (edge_name a b)" by (rule graph_inv_node_ids)
    then show False using edge_name_not_node_id by blast
  next
    case 2
    then obtain e where e: "e \<in> set (edges g)" and "edge_id e = edge_name a b" by auto
    with inv have eq: "edge_name (source e) (target e) = edge_name a b"
      by (simp add: graph_inv_def)
    from inv e have "has_node g (source e)" by (simp add: graph_inv_def)
    with inv have "is_node_id (source e)" by (rule graph_inv_node_ids)
    moreover from inv a have "is_node_id a" by (rule graph_inv_node_ids)
    ultimately have "source e = a \<and> target e = b" using eq by (rule edge_name_inj)
    with e have "e \<in> set (cy_edges g a b)" by (simp add: cy_edges_mem)
    with none show False by simp
  qed
qed

lemma cy_add_edge_fresh:
  assumes "graph_inv g" "has_node g a" "has_node g b" "cy_edges g a b = []"
  shows "cy_add_edge g \<lparr>edge_id = edge_name a b, source = a, target = b\<rparr> =
         g\<lparr>edges := edges g @ [\<lparr>edge_id = edge_name a b, source = a, target = b\<rparr>]\<rparr>"
  using edge_name_fresh[OF assms] assms(2,3) by (simp add: cy_add_edge_def)


lemma graph_inv_add_edge:
  assumes inv: "graph_inv g" and none: "cy_edges g a b = []"
  shows "graph_inv (cy_add_edge g \<lparr>edge_id = edge_name a b, source = a, target = b\<rparr>)"
proof -
  let ?e = "\<lparr>edge_id = edge_name a b, source = a, target = b\<rparr>"
  let ?g = "g\<lparr>edges := edges g @ [?e]\<rparr>"
  show ?thesis
  proof (cases "cy_add_edge g ?e = g")
    case True
    with inv show ?thesis by simp
  next
    case False
    then have eq: "cy_add_edge g ?e = ?g" and a: "has_node g a" and b: "has_node g b"
      by (auto simp: cy_add_edge_def split: if_splits)
    have "\<forall>e \<in> set (edges ?g). has_node ?g (source e) \<and> has_node ?g (target e) \<and>
                 edge_id e = edge_name (source e) (target e) \<and>
                 cy_edges ?g (source e) (target e) = [e]"
    proof
      fix e assume "e \<in> set (edges ?g)"
      then consider (old) "e \<in> set (edges g)" | (new) "e = ?e" by auto
      then show "has_node ?g (source e) \<and> has_node ?g (target e) \<and>
                 edge_id e = edge_name (source e) (target e) \<and>
                 cy_edges ?g (source e) (target e) = [e]"
      proof cases
        case old
        have "\<not> ((a = source e \<and> b = target e) \<or> (a = target e \<and> b = source e))"
        proof
          assume "(a = source e \<and> b = target e) \<or> (a = target e \<and> b = source e)"
          with old have "e \<in> set (cy_edges g a b)" by (auto simp: cy_edges_mem)
          with none show False by simp
        qed
        with old inv show ?thesis
          by (simp add: graph_inv_def has_node_edges_update cy_edges_append)
      next
        case new
        with a b none show ?thesis
          by (simp add: has_node_edges_update cy_edges_append)
      qed
    qed
    with inv have "graph_inv ?g"
      by (simp add: graph_inv_def)
    then show ?thesis using eq by simp
  qed
qed

lemma graph_inv_same_ids:
  assumes "graph_inv g" "map (nd_id \<circ> data) (nodes g') = map (nd_id \<circ> data) (nodes g)"
    "edges g' = edges g"
  shows "graph_inv g'"
proof -
  have ids: "(\<forall>n \<in> set (nodes h). is_node_id (nd_id (data n))) \<longleftrightarrow>
             (\<forall>i \<in> set (map (nd_id \<circ> data) (nodes h)). is_node_id i)" for h :: graph
    by simp
  have ce: "cy_edges g' x y = cy_edges g x y" for x y
    using assms(3) by (simp add: cy_edges_def)
  have hn: "has_node g' i = has_node g i" for i
    using assms(2) by (simp add: has_node_def)
  from assms(1) show ?thesis
    unfolding graph_inv_def ids ce hn assms(2,3) .
qed

lemma graph_inv_set_label: "graph_inv g \<Longrightarrow> graph_inv (cy_set_label g i text)"
  by (erule graph_inv_same_ids) (simp_all add: cy_set_label_def comp_def)

lemma graph_inv_place:
  "graph_inv g \<Longrightarrow> graph_inv (g\<lparr>nodes := map (\<lambda>n. n\<lparr>position := place n\<rparr>) (nodes g)\<rparr>)"
  by (erule graph_inv_same_ids) (simp_all add: comp_def)

lemma graph_inv_filter:
  assumes inv: "graph_inv g"
    and keep: "\<And>e. e \<in> set (edges g) \<Longrightarrow> P e \<Longrightarrow> Q (source e) \<and> Q (target e)"
  shows "graph_inv (g\<lparr>nodes := filter (\<lambda>n. Q (nd_id (data n))) (nodes g),
                      edges := filter P (edges g)\<rparr>)"
    (is "graph_inv ?g")
  unfolding graph_inv_def
proof (intro conjI ballI)
  show "distinct (map (nd_id \<circ> data) (nodes ?g))"
    using inv by (simp add: graph_inv_def distinct_map_filter)
  show "is_node_id (nd_id (data m))" if "m \<in> set (nodes ?g)" for m
    using that inv by (simp add: graph_inv_def)
  fix e assume "e \<in> set (edges ?g)"
  then have e: "e \<in> set (edges g)" and p: "P e" by simp_all
  from keep[OF e p] have q: "Q (source e)" "Q (target e)" by simp_all
  from inv e have "has_node g (source e)" "has_node g (target e)"
    by (simp_all add: graph_inv_def)
  with q show "has_node ?g (source e)" "has_node ?g (target e)"
    by (auto simp: has_node_iff)
  from inv e show "edge_id e = edge_name (source e) (target e)"
    by (simp add: graph_inv_def)
  have "cy_edges ?g (source e) (target e) = filter P (cy_edges g (source e) (target e))"
    by (auto simp: cy_edges_def intro: filter_cong)
  also from inv e have "cy_edges g (source e) (target e) = [e]" by (simp add: graph_inv_def)
  finally show "cy_edges ?g (source e) (target e) = [e]" using p by simp
qed

lemma graph_inv_remove: 
  assumes "graph_inv g"
  shows "graph_inv (cy_remove g i)"
proof (cases "has_node g i")
  case True
  have "graph_inv (g\<lparr>nodes := filter (\<lambda>n. nd_id (data n) \<noteq> i) (nodes g),
          edges := filter (\<lambda>e. edge_id e \<noteq> i \<and> source e \<noteq> i \<and> target e \<noteq> i) (edges g)\<rparr>)"
    using assms by (rule graph_inv_filter) simp
  with True show ?thesis by (simp add: cy_remove_def)
next
  case False
  have "graph_inv (g\<lparr>nodes := filter (\<lambda>n. (\<lambda>j. True) (nd_id (data n))) (nodes g),
          edges := filter (\<lambda>e. edge_id e \<noteq> i) (edges g)\<rparr>)"
    using assms by (rule graph_inv_filter) simp
  with False show ?thesis by (simp add: cy_remove_def)
qed

subsection \<open>The handlers keep the graph well formed\<close>

lemma createEdge_eq:
  "createEdge a b s =
   s\<lparr>cy := map_option
      (\<lambda>g. if cy_edges g a b = [] then
              cy_add_edge g \<lparr>edge_id = edge_name a b, source = a, target = b\<rparr> else g) (cy s)\<rparr>"
  by (cases "cy s") (simp_all add: createEdge_def)

lemma canvas_ok_iff: "canvas_ok s \<longleftrightarrow> (\<exists>g. cy s = Some g \<and> graph_inv g)"
  by (simp add: canvas_ok_def split: option.splits)

lemma cy_createEdge:
  "cy s = Some g \<Longrightarrow>
   cy (createEdge a b s) =
   Some (if cy_edges g a b = [] then
           cy_add_edge g \<lparr>edge_id = edge_name a b, source = a, target = b\<rparr> else g)"
  by (simp add: createEdge_def)

lemma canvas_ok_createEdge: "canvas_ok s \<Longrightarrow> canvas_ok (createEdge a b s)"
proof -
  assume "canvas_ok s"
  then obtain g where g: "cy s = Some g" "graph_inv g" by (auto simp: canvas_ok_iff)
  then show ?thesis
    by (simp add: canvas_ok_def cy_createEdge graph_inv_add_edge)
qed

lemma canvas_ok_updates [simp]:
  "canvas_ok (selectedNode_update f1 s) = canvas_ok s"
  "canvas_ok (isEditing_update f2 s) = canvas_ok s"
  "canvas_ok (editText_update f3 s) = canvas_ok s"
  "canvas_ok (notified_update f4 s) = canvas_ok s"
  "canvas_ok (canvas.more_update f5 s) = canvas_ok s"
  "canvas_ok (isConnecting_update f6 c) = canvas_ok c"
  "canvas_ok (firstNode_update f7 c) = canvas_ok c"
  "canvas_ok (isDragging_update f8 d) = canvas_ok d"
  "canvas_ok (dragStart_update f9 d) = canvas_ok d"
  "canvas_ok (dragEnd_update f10 d) = canvas_ok d"
  by (simp_all add: canvas_ok_def)

lemma canvas_ok_onNodeSelect [simp]: "canvas_ok (onNodeSelect v s) = canvas_ok s"
  by (simp add: onNodeSelect_def)

lemma cy_onNodeSelect [simp]: "cy (onNodeSelect v s) = cy s"
  by (simp add: onNodeSelect_def)

lemma canvas_ok_deleteSelected: "canvas_ok s \<Longrightarrow> canvas_ok (deleteSelected s)"
  by (auto simp: canvas_ok_iff deleteSelected_def graph_inv_remove split: option.splits)

lemma canvas_ok_saveEdit: "canvas_ok s \<Longrightarrow> canvas_ok (saveEdit s)"
  by (auto simp: canvas_ok_iff saveEdit_def graph_inv_set_label split: option.splits)

lemma canvas_ok_runLayout: "canvas_ok s \<Longrightarrow> canvas_ok (runLayout place s)"
  by (auto simp: canvas_ok_iff runLayout_def graph_inv_place split: option.splits)

lemma canvas_ok_startEditing: "canvas_ok s \<Longrightarrow> canvas_ok (startEditing s)"
  by (simp add: canvas_ok_def startEditing_def split: option.splits)

lemma canvas_ok_setEditText: "canvas_ok s \<Longrightarrow> canvas_ok (setEditText v s)"
  by (simp add: canvas_ok_def setEditText_def)

lemma canvas_ok_cancelEdit: "canvas_ok s \<Longrightarrow> canvas_ok (cancelEdit s)"
  by (simp add: canvas_ok_def cancelEdit_def)

lemma new_node_id [simp]: "nd_id (data (new_node sel ty now rx ry)) = node_name now"
  by (simp add: new_node_def)

lemma canvas_ok_add_new_node:
  "canvas_ok s \<Longrightarrow> cy s = Some g \<Longrightarrow>
   canvas_ok (s\<lparr>cy := Some (cy_add_node g (new_node sel ty now rx ry))\<rparr>)"
  by (simp add: canvas_ok_def graph_inv_add_node node_name_is_node_id)

lemma canvas_ok_addNode: "canvas_ok s \<Longrightarrow> canvas_ok (addNode ty now rx ry s)"
  by (auto simp: addNode_def Let_def canvas_ok_add_new_node canvas_ok_createEdge
           split: option.splits)

lemma canvas_ok_drag_addNode: "canvas_ok s \<Longrightarrow> canvas_ok (drag_addNode ty now rx ry s)"
  by (auto simp: drag_addNode_def Let_def canvas_ok_add_new_node canvas_ok_createEdge
           split: option.splits)

lemma tap_node_eq:
  "tap_node nodeData s = onNodeSelect (Some nodeData) (s\<lparr>selectedNode := Some nodeData\<rparr>)"
  by (simp add: tap_node_def tap_node_of_def connect_initial_def)

lemma tap_background_eq: "tap_background s = onNodeSelect None (s\<lparr>selectedNode := None\<rparr>)"
  by (simp add: tap_background_def tap_background_of_def connect_initial_def)

lemma cy_tap_node_of [simp]: "cy (tap_node_of r threw n s) = cy s"
  by (simp add: tap_node_of_def split: option.splits)

lemma cy_tap_background_of [simp]: "cy (tap_background_of r s) = cy s"
  by (simp add: tap_background_of_def)

lemma canvas_ok_tap_node_of: "canvas_ok s \<Longrightarrow> canvas_ok (tap_node_of r threw n s)"
  by (simp add: canvas_ok_def)

lemma canvas_ok_tap_background_of: "canvas_ok s \<Longrightarrow> canvas_ok (tap_background_of r s)"
  by (simp add: canvas_ok_def)

lemma canvas_ok_startConnecting: "canvas_ok s \<Longrightarrow> canvas_ok (startConnecting s)"
  by (simp add: startConnecting_def canvas_ok_def)

lemma canvas_ok_cancelConnecting: "canvas_ok s \<Longrightarrow> canvas_ok (cancelConnecting s)"
  by (simp add: cancelConnecting_def canvas_ok_def)

lemma canvas_ok_connect_mount: "canvas_ok (connect_mount s)"
  by (simp add: canvas_ok_def connect_mount_def graph_inv_initial)

text \<open>Every state the two-click variant reaches is mounted and has a well-formed graph.\<close>

theorem connect_reachable_ok: "connect_reachable r s \<Longrightarrow> canvas_ok s"
proof (induction rule: connect_reachable.induct)
  case cr_mount
  show ?case by (rule canvas_ok_connect_mount)
next
  case (cr_remount r s)
  show ?case by (rule canvas_ok_connect_mount)
qed (simp_all add: canvas_ok_tap_node_of canvas_ok_tap_background_of canvas_ok_addNode
      canvas_ok_deleteSelected canvas_ok_startEditing canvas_ok_setEditText canvas_ok_saveEdit
      canvas_ok_cancelEdit canvas_ok_startConnecting canvas_ok_cancelConnecting
      canvas_ok_runLayout)

lemma canvas_ok_drag_tap_node: "canvas_ok s \<Longrightarrow> canvas_ok (drag_tap_node n s)"
  by (simp add: drag_tap_node_def canvas_ok_def)

lemma canvas_ok_drag_tap_background: "canvas_ok s \<Longrightarrow> canvas_ok (drag_tap_background s)"
  by (simp add: drag_tap_background_def canvas_ok_def)

lemma canvas_ok_drag_mount: "canvas_ok (drag_mount s)"
  by (simp add: canvas_ok_def drag_mount_def graph_inv_initial)

lemma canvas_ok_mousedown_node: "canvas_ok (mousedown_node n p s)"
  by (simp add: mousedown_node_def canvas_ok_drag_mount)

lemma canvas_ok_mousemove: "canvas_ok s \<Longrightarrow> canvas_ok (mousemove c r s)"
  by (simp add: mousemove_def canvas_ok_def split: option.splits)

lemma canvas_ok_mouseup_node: "canvas_ok s \<Longrightarrow> canvas_ok (mouseup_node threw n s)"
  by (simp add: mouseup_node_def canvas_ok_drag_mount split: option.splits)

lemma canvas_ok_mouseup_background: "canvas_ok s \<Longrightarrow> canvas_ok (mouseup_background s)"
  by (simp add: mouseup_background_def canvas_ok_drag_mount)

text \<open>Every state the drag variant reaches is mounted and has a well-formed graph.\<close>

theorem drag_reachable_ok: "drag_reachable s \<Longrightarrow> canvas_ok s"
proof (induction rule: drag_reachable.induct)
  case dr_mount
  show ?case by (rule canvas_ok_drag_mount)
next
  case (dr_remount s)
  show ?case by (rule canvas_ok_drag_mount)
qed (simp_all add: canvas_ok_drag_tap_node canvas_ok_drag_tap_background canvas_ok_drag_addNode
      canvas_ok_deleteSelected canvas_ok_startEditing canvas_ok_setEditText canvas_ok_saveEdit
      canvas_ok_cancelEdit canvas_ok_mousedown_node canvas_ok_mousemove canvas_ok_mouseup_node
      canvas_ok_mouseup_background canvas_ok_runLayout)

section \<open>Handlers: supporting lemmas\<close>

lemma createEdge_connects:
  assumes "cy s = Some g" "graph_inv g" "has_node g a" "has_node g b"
  shows "cy (createEdge a b s) =
         Some (if cy_edges g a b = []
               then g\<lparr>edges := edges g @ [\<lparr>edge_id = edge_name a b, source = a, target = b\<rparr>]\<rparr>
               else g)"
  using assms by (simp add: cy_createEdge cy_add_edge_fresh)

lemma createEdge_one_edge:
  assumes "cy s = Some g" "graph_inv g" "has_node g a" "has_node g b"
  shows "\<exists>g'. cy (createEdge a b s) = Some g' \<and> graph_inv g' \<and> nodes g' = nodes g \<and>
              length (cy_edges g' a b) = 1"
proof (cases "cy_edges g a b = []")
  case True
  let ?g = "g\<lparr>edges := edges g @ [\<lparr>edge_id = edge_name a b, source = a, target = b\<rparr>]\<rparr>"
  from assms True have c: "cy (createEdge a b s) = Some ?g" by (simp add: createEdge_connects)
  from assms(1,2) have "canvas_ok (createEdge a b s)"
    by (intro canvas_ok_createEdge) (simp add: canvas_ok_def)
  with c have "graph_inv ?g" by (simp add: canvas_ok_def)
  moreover from True have "length (cy_edges ?g a b) = 1" by (simp add: cy_edges_append)
  ultimately show ?thesis using c by simp
next
  case False
  with assms have c: "cy (createEdge a b s) = Some g" by (simp add: createEdge_connects)
  from assms(2) have "length (cy_edges g a b) \<le> 1" by (rule graph_inv_at_most_one)
  with False have "length (cy_edges g a b) = 1" by (cases "cy_edges g a b") simp_all
  with c assms(2) show ?thesis by simp
qed

lemma createEdge_fields [simp]:
  "selectedNode (createEdge a b s) = selectedNode s"
  "isEditing (createEdge a b s) = isEditing s"
  "editText (createEdge a b s) = editText s"
  "notified (createEdge a b s) = notified s"
  "canvas.more (createEdge a b s) = canvas.more s"
  by (simp_all add: createEdge_eq)

lemma createEdge_connect_fields [simp]:
  "isConnecting (createEdge a b c) = isConnecting c"
  "firstNode (createEdge a b c) = firstNode c"
  by (simp_all add: createEdge_eq)

lemma createEdge_drag_fields [simp]:
  "isDragging (createEdge a b d) = isDragging d"
  "dragStart (createEdge a b d) = dragStart d"
  "dragEnd (createEdge a b d) = dragEnd d"
  by (simp_all add: createEdge_eq)

lemma createEdge_existing:
  "cy s = Some g \<Longrightarrow> cy_edges g a b \<noteq> [] \<Longrightarrow> createEdge a b s = s"
  by (simp add: createEdge_def)

lemma createEdge_at_most_one:
  assumes "cy s = Some g" "\<forall>x y. length (cy_edges g x y) \<le> 1"
  shows "\<exists>g'. cy (createEdge a b s) = Some g' \<and> (\<forall>x y. length (cy_edges g' x y) \<le> 1)"
proof (cases "cy_edges g a b = [] \<and>
    cy_add_edge g \<lparr>edge_id = edge_name a b, source = a, target = b\<rparr> \<noteq> g")
  case False
  with assms(1) have "cy (createEdge a b s) = Some g" by (auto simp: cy_createEdge)
  with assms(2) show ?thesis by simp
next
  case True
  let ?e = "\<lparr>edge_id = edge_name a b, source = a, target = b\<rparr>"
  let ?g = "g\<lparr>edges := edges g @ [?e]\<rparr>"
  from True have add: "cy_add_edge g ?e = ?g" by (auto simp: cy_add_edge_def split: if_splits)
  have "length (cy_edges ?g x y) \<le> 1" for x y
  proof (cases "(a = x \<and> b = y) \<or> (a = y \<and> b = x)")
    case False
    with assms(2) show ?thesis by (auto simp: cy_edges_append)
  next
    case ab: True
    with True have "cy_edges g x y = []" using cy_edges_sym[of g a b] by auto
    then show ?thesis by (simp add: cy_edges_append)
  qed
  with assms(1) True add show ?thesis by (simp add: cy_createEdge)
qed

lemma createEdge_calls_at_most_one:
  assumes "cy s = Some g" "\<forall>x y. length (cy_edges g x y) \<le> 1"
  shows "\<exists>g'. cy (fold (\<lambda>c. createEdge (fst c) (snd c)) calls s) = Some g' \<and>
              (\<forall>x y. length (cy_edges g' x y) \<le> 1)"
  using assms
proof (induction calls arbitrary: s g)
  case Nil
  then show ?case by simp
next
  case (Cons c calls)
  from createEdge_at_most_one[OF Cons.prems] obtain g1
    where "cy (createEdge (fst c) (snd c) s) = Some g1" "\<forall>x y. length (cy_edges g1 x y) \<le> 1"
    by blast
  from Cons.IH[OF this] show ?case by simp
qed

lemma trim_blank:
  assumes "\<forall>c \<in> set t. is_space c"
  shows "trim t = []"
proof -
  from assms have d: "dropWhile is_space t = []" by simp
  show ?thesis unfolding trim_def d by simp
qed

lemma cy_add_edge_nodes [simp]: "nodes (cy_add_edge g e) = nodes g"
  by (simp add: cy_add_edge_def)

lemma createEdge_nodes:
  "\<exists>g'. cy (createEdge a b (s\<lparr>cy := Some g\<rparr>)) = Some g' \<and> nodes g' = nodes g"
  by (simp add: createEdge_def)

lemma node_name_not_element:
  assumes "graph_inv g"
  shows "hasElementWithId g (node_name now) = has_node g (node_name now)"
  using node_id_not_edge_id[OF assms node_name_is_node_id, of now]
  by (simp add: hasElementWithId_def)

lemma cy_add_new_node:
  assumes "graph_inv g"
  shows "cy_add_node g (new_node sel ty now rx ry) =
         (if has_node g (node_name now) then g
          else g\<lparr>nodes := nodes g @ [new_node sel ty now rx ry]\<rparr>)"
  using assms by (simp add: cy_add_node_def node_name_not_element)

lemma addNode_node_ids:
  assumes "cy s = Some g" "graph_inv g"
  shows "\<exists>g'. cy (addNode ty now rx ry s) = Some g' \<and> graph_inv g' \<and>
              map (nd_id \<circ> data) (nodes g') =
                (if has_node g (node_name now) then map (nd_id \<circ> data) (nodes g)
                 else map (nd_id \<circ> data) (nodes g) @ [node_name now])"
proof -
  let ?g1 = "cy_add_node g (new_node (selectedNode s \<noteq> None) ty now rx ry)"
  let ?s1 = "s\<lparr>cy := Some ?g1\<rparr>"
  have ids: "map (nd_id \<circ> data) (nodes ?g1) =
      (if has_node g (node_name now) then map (nd_id \<circ> data) (nodes g)
       else map (nd_id \<circ> data) (nodes g) @ [node_name now])"
    using assms(2) by (simp add: cy_add_new_node)
  have "\<exists>g'. cy (addNode ty now rx ry s) = Some g' \<and> nodes g' = nodes ?g1"
    using assms(1) by (cases "selectedNode s") (simp_all add: addNode_def Let_def createEdge_nodes)
  then obtain g' where g': "cy (addNode ty now rx ry s) = Some g'" "nodes g' = nodes ?g1"
    by blast
  from assms have "canvas_ok (addNode ty now rx ry s)"
    by (intro canvas_ok_addNode) (simp add: canvas_ok_def)
  with g'(1) have "graph_inv g'" by (simp add: canvas_ok_def)
  with g' ids show ?thesis by simp
qed

lemma drag_addNode_node_ids:
  assumes "cy s = Some g" "graph_inv g"
  shows "\<exists>g'. cy (drag_addNode ty now rx ry s) = Some g' \<and> graph_inv g' \<and>
              map (nd_id \<circ> data) (nodes g') =
                (if has_node g (node_name now) then map (nd_id \<circ> data) (nodes g)
                 else map (nd_id \<circ> data) (nodes g) @ [node_name now])"
proof -
  let ?g1 = "cy_add_node g (new_node (selectedNode s \<noteq> None) ty now rx ry)"
  let ?s1 = "s\<lparr>cy := Some ?g1\<rparr>"
  have ids: "map (nd_id \<circ> data) (nodes ?g1) =
      (if has_node g (node_name now) then map (nd_id \<circ> data) (nodes g)
       else map (nd_id \<circ> data) (nodes g) @ [node_name now])"
    using assms(2) by (simp add: cy_add_new_node)
  have "\<exists>g'. cy (drag_addNode ty now rx ry s) = Some g' \<and> nodes g' = nodes ?g1"
    using assms(1) by (cases "selectedNode s") (simp_all add: drag_addNode_def Let_def createEdge_nodes)
  then obtain g' where g': "cy (drag_addNode ty now rx ry s) = Some g'" "nodes g' = nodes ?g1"
    by blast
  from assms have "canvas_ok (drag_addNode ty now rx ry s)"
    by (intro canvas_ok_drag_addNode) (simp add: canvas_ok_def)
  with g'(1) have "graph_inv g'" by (simp add: canvas_ok_def)
  with g' ids show ?thesis by simp
qed

text \<open>A sequence of calls of a function that adds nodes as \<open>addNode\<close> does.\<close>

lemma add_calls_node_ids:
  fixes add :: "node_type \<Rightarrow> nat \<Rightarrow> real \<Rightarrow> real \<Rightarrow> 'a canvas_scheme \<Rightarrow> 'a canvas_scheme"
  assumes step: "\<And>s g ty now rx ry. cy s = Some g \<Longrightarrow> graph_inv g \<Longrightarrow>
      \<exists>g'. cy (add ty now rx ry s) = Some g' \<and> graph_inv g' \<and>
           map (nd_id \<circ> data) (nodes g') =
             (if has_node g (node_name now) then map (nd_id \<circ> data) (nodes g)
              else map (nd_id \<circ> data) (nodes g) @ [node_name now])"
    and "cy s = Some g" "graph_inv g"
  shows "\<exists>g'. cy (fold (\<lambda>c. add (call_type c) (call_now c) (call_rx c) (call_ry c)) calls s) =
              Some g' \<and> graph_inv g' \<and>
           (distinct (map call_now calls) \<and>
            (\<forall>c \<in> set calls. \<not> has_node g (node_name (call_now c))) \<longrightarrow>
            map (nd_id \<circ> data) (nodes g') =
              map (nd_id \<circ> data) (nodes g) @ map (node_name \<circ> call_now) calls)"
  using assms(2,3)
proof (induction calls arbitrary: s g)
  case Nil
  then show ?case by simp
next
  case (Cons c calls)
  let ?s1 = "add (call_type c) (call_now c) (call_rx c) (call_ry c) s"
  from step[OF Cons.prems, of "call_type c" "call_now c" "call_rx c" "call_ry c"] obtain g1 where
    g1: "cy ?s1 = Some g1" "graph_inv g1"
    and ids1: "map (nd_id \<circ> data) (nodes g1) =
             (if has_node g (node_name (call_now c)) then map (nd_id \<circ> data) (nodes g)
              else map (nd_id \<circ> data) (nodes g) @ [node_name (call_now c)])" by blast
  from Cons.IH[OF g1] obtain g' where
    g': "cy (fold (\<lambda>c. add (call_type c) (call_now c) (call_rx c) (call_ry c)) calls ?s1) = Some g'"
      "graph_inv g'"
    and ids': "distinct (map call_now calls) \<and>
            (\<forall>c \<in> set calls. \<not> has_node g1 (node_name (call_now c))) \<longrightarrow>
            map (nd_id \<circ> data) (nodes g') =
              map (nd_id \<circ> data) (nodes g1) @ map (node_name \<circ> call_now) calls"
    by blast
  have "map (nd_id \<circ> data) (nodes g') =
        map (nd_id \<circ> data) (nodes g) @ map (node_name \<circ> call_now) (c # calls)"
    if d: "distinct (map call_now (c # calls))"
      and f: "\<forall>c' \<in> set (c # calls). \<not> has_node g (node_name (call_now c'))"
  proof -
    from f have fresh: "\<not> has_node g (node_name (call_now c))" by simp
    with ids1 have i1: "map (nd_id \<circ> data) (nodes g1) =
        map (nd_id \<circ> data) (nodes g) @ [node_name (call_now c)]"
      by simp
    have "\<not> has_node g1 (node_name (call_now c'))" if "c' \<in> set calls" for c'
    proof -
      from that f have "\<not> has_node g (node_name (call_now c'))" by simp
      moreover have "call_now c' \<noteq> call_now c"
      proof
        assume "call_now c' = call_now c"
        with that have "call_now c \<in> call_now ` set calls" by (metis imageI)
        with d show False by simp
      qed
      then have "node_name (call_now c') \<noteq> node_name (call_now c)"
        using node_name_inj by blast
      ultimately show ?thesis using i1 by (simp add: has_node_def)
    qed
    moreover from d have "distinct (map call_now calls)" by simp
    ultimately have "map (nd_id \<circ> data) (nodes g') =
        map (nd_id \<circ> data) (nodes g1) @ map (node_name \<circ> call_now) calls"
      using ids' by blast
    with i1 show ?thesis by simp
  qed
  then have imp: "distinct (map call_now (c # calls)) \<and>
      (\<forall>c' \<in> set (c # calls). \<not> has_node g (node_name (call_now c'))) \<longrightarrow>
      map (nd_id \<circ> data) (nodes g') =
        map (nd_id \<circ> data) (nodes g) @ map (node_name \<circ> call_now) (c # calls)"
    by blast
  show ?case
  proof (intro exI[of _ g'] conjI)
    from g'(1)
    show "cy (fold (\<lambda>c. add (call_type c) (call_now c) (call_rx c) (call_ry c)) (c # calls) s) =
          Some g'"
      by simp
    show "graph_inv g'" by (rule g'(2))
    show "distinct (map call_now (c # calls)) \<and>
      (\<forall>c' \<in> set (c # calls). \<not> has_node g (node_name (call_now c'))) \<longrightarrow>
      map (nd_id \<circ> data) (nodes g') =
        map (nd_id \<circ> data) (nodes g) @ map (node_name \<circ> call_now) (c # calls)"
      by (rule imp)
  qed
qed

lemma add_then_connect:
  assumes "cy s = Some g" "graph_inv g" "\<not> has_node g (node_name now)" "has_node g a"
  shows "cy (createEdge a (node_name now)
              (s\<lparr>cy := Some (cy_add_node g (new_node b ty now rx ry))\<rparr>)) =
         Some (g\<lparr>nodes := nodes g @ [new_node b ty now rx ry],
                 edges := edges g @
                   [\<lparr>edge_id = edge_name a (node_name now), source = a, target = node_name now\<rparr>]\<rparr>)"
proof -
  let ?n = "new_node b ty now rx ry"
  let ?g1 = "g\<lparr>nodes := nodes g @ [?n]\<rparr>"
  from assms(2,3) have add: "cy_add_node g ?n = ?g1" by (simp add: cy_add_new_node)
  from assms(2) have "graph_inv (cy_add_node g ?n)"
    by (rule graph_inv_add_node) (simp add: node_name_is_node_id)
  with add have inv1: "graph_inv ?g1" by simp
  from assms(4) have a1: "has_node ?g1 a" and n1: "has_node ?g1 (node_name now)"
    by (simp_all add: has_node_def)
  have none: "cy_edges ?g1 a (node_name now) = []"
  proof (rule ccontr)
    assume "cy_edges ?g1 a (node_name now) \<noteq> []"
    then obtain e where "e \<in> set (cy_edges ?g1 a (node_name now))"
      by (cases "cy_edges ?g1 a (node_name now)") auto
    then have e: "e \<in> set (edges g)"
      and "source e = node_name now \<or> target e = node_name now"
      by (auto simp: cy_edges_mem)
    moreover from assms(2) e have "has_node g (source e)" "has_node g (target e)"
      by (simp_all add: graph_inv_def)
    ultimately show False using assms(3) by auto
  qed
  have "cy (s\<lparr>cy := Some ?g1\<rparr>) = Some ?g1" by simp
  from createEdge_connects[OF this inv1 a1 n1] none add show ?thesis by simp
qed

lemma addNode_unselected:
  assumes "cy s = Some g" "graph_inv g" "\<not> has_node g (node_name now)" "selectedNode s = None"
  shows "cy (addNode ty now rx ry s) = Some (g\<lparr>nodes := nodes g @ [new_node False ty now rx ry]\<rparr>)"
  using assms by (simp add: addNode_def cy_add_new_node)

lemma addNode_selected:
  assumes "cy s = Some g" "graph_inv g" "\<not> has_node g (node_name now)"
    and "selectedNode s = Some sel" "has_node g (nd_id sel)" "\<not> isConnecting s"
  shows "cy (addNode ty now rx ry s) =
         Some (g\<lparr>nodes := nodes g @ [new_node True ty now rx ry],
                 edges := edges g @
                   [\<lparr>edge_id = edge_name (nd_id sel) (node_name now), source = nd_id sel,
                     target = node_name now\<rparr>]\<rparr>)"
  using assms(1,4,6) add_then_connect[OF assms(1,2,3,5)]
  by (simp add: addNode_def)

lemma addNode_connecting:
  assumes "cy s = Some g" "graph_inv g" "\<not> has_node g (node_name now)" "isConnecting s"
  shows "cy (addNode ty now rx ry s) =
         Some (g\<lparr>nodes := nodes g @ [new_node (selectedNode s \<noteq> None) ty now rx ry]\<rparr>)"
  using assms by (cases "selectedNode s") (simp_all add: addNode_def cy_add_new_node)

lemma drag_addNode_unselected:
  assumes "cy s = Some g" "graph_inv g" "\<not> has_node g (node_name now)" "selectedNode s = None"
  shows "cy (drag_addNode ty now rx ry s) =
         Some (g\<lparr>nodes := nodes g @ [new_node False ty now rx ry]\<rparr>)"
  using assms by (simp add: drag_addNode_def cy_add_new_node)

lemma drag_addNode_selected:
  assumes "cy s = Some g" "graph_inv g" "\<not> has_node g (node_name now)"
    and "selectedNode s = Some sel" "has_node g (nd_id sel)" "\<not> isDragging s"
  shows "cy (drag_addNode ty now rx ry s) =
         Some (g\<lparr>nodes := nodes g @ [new_node True ty now rx ry],
                 edges := edges g @
                   [\<lparr>edge_id = edge_name (nd_id sel) (node_name now), source = nd_id sel,
                     target = node_name now\<rparr>]\<rparr>)"
  using assms(1,4,6) add_then_connect[OF assms(1,2,3,5)]
  by (simp add: drag_addNode_def)

lemma addNode_fields [simp]:
  "selectedNode (addNode ty now rx ry s) = selectedNode s"
  "isConnecting (addNode ty now rx ry s) = isConnecting s"
  "firstNode (addNode ty now rx ry s) = firstNode s"
  "notified (addNode ty now rx ry s) = notified s"
  by (simp_all add: addNode_def Let_def split: option.splits)

lemma drag_addNode_fields [simp]:
  "selectedNode (drag_addNode ty now rx ry s) = selectedNode s"
  "isDragging (drag_addNode ty now rx ry s) = isDragging s"
  "dragStart (drag_addNode ty now rx ry s) = dragStart s"
  "notified (drag_addNode ty now rx ry s) = notified s"
  by (simp_all add: drag_addNode_def Let_def split: option.splits)

lemma node_name_not_root [simp]: "node_name now \<noteq> ''root''"
  by (simp add: node_name_def)

text \<open>The scenario: add a node, select the root, add another node.\<close>

lemma connect_scenario:
  assumes "t1 \<noteq> t2"
  shows "cy (addNode ty1 t1 rx1 ry1 (connect_mount connect_initial)) =
           Some (initial_elements\<lparr>nodes := nodes initial_elements @ [new_node False ty1 t1 rx1 ry1]\<rparr>)"
    and "cy (addNode ty2 t2 rx2 ry2
              (tap_node \<lparr>nd_id = ''root'', nd_label = ''Main Idea'', nd_type = Root\<rparr>
                 (addNode ty1 t1 rx1 ry1 (connect_mount connect_initial)))) =
           Some (initial_elements
             \<lparr>nodes := nodes initial_elements @
                 [new_node False ty1 t1 rx1 ry1, new_node True ty2 t2 rx2 ry2],
              edges := [\<lparr>edge_id = edge_name ''root'' (node_name t2), source = ''root'',
                         target = node_name t2\<rparr>]\<rparr>)"
proof -
  let ?r = "\<lparr>nd_id = ''root'', nd_label = ''Main Idea'', nd_type = Root\<rparr>"
  let ?s0 = "connect_mount connect_initial"
  let ?s1 = "addNode ty1 t1 rx1 ry1 ?s0"
  let ?s2 = "tap_node ?r ?s1"
  let ?g1 = "initial_elements\<lparr>nodes := nodes initial_elements @ [new_node False ty1 t1 rx1 ry1]\<rparr>"
  have s0: "cy ?s0 = Some initial_elements" "selectedNode ?s0 = None" "\<not> isConnecting ?s0"
    by (simp_all add: connect_mount_def connect_initial_def)
  have f0: "\<not> has_node initial_elements (node_name t1)"
    by (simp add: has_node_def initial_elements_def)
  from s0(1) graph_inv_initial f0 s0(2) show c1: "cy ?s1 = Some ?g1"
    by (rule addNode_unselected)
  from s0 have s2: "selectedNode ?s2 = Some ?r" "\<not> isConnecting ?s2" "cy ?s2 = cy ?s1"
    by (simp_all add: tap_node_eq onNodeSelect_def)
  from s0(1) graph_inv_initial have "canvas_ok ?s1"
    by (intro canvas_ok_addNode) (simp add: canvas_ok_def)
  with c1 have inv1: "graph_inv ?g1" by (simp add: canvas_ok_def)
  from assms have "node_name t2 \<noteq> node_name t1" using node_name_inj by blast
  then have f1: "\<not> has_node ?g1 (node_name t2)"
    by (simp add: has_node_def initial_elements_def)
  have r1: "has_node ?g1 (nd_id ?r)" by (simp add: has_node_def initial_elements_def)
  from c1 s2(3) have c2: "cy ?s2 = Some ?g1" by simp
  from addNode_selected[OF c2 inv1 f1 s2(1) r1 s2(2), of ty2 rx2 ry2]
  show "cy (addNode ty2 t2 rx2 ry2 ?s2) =
           Some (initial_elements
             \<lparr>nodes := nodes initial_elements @
                 [new_node False ty1 t1 rx1 ry1, new_node True ty2 t2 rx2 ry2],
              edges := [\<lparr>edge_id = edge_name ''root'' (node_name t2), source = ''root'',
                         target = node_name t2\<rparr>]\<rparr>)"
    by (simp add: initial_elements_def)
qed

lemma drag_scenario:
  assumes "t1 \<noteq> t2"
  shows "cy (drag_addNode ty1 t1 rx1 ry1 (drag_mount drag_initial)) =
           Some (initial_elements\<lparr>nodes := nodes initial_elements @ [new_node False ty1 t1 rx1 ry1]\<rparr>)"
    and "cy (drag_addNode ty2 t2 rx2 ry2
              (drag_tap_node \<lparr>nd_id = ''root'', nd_label = ''Main Idea'', nd_type = Root\<rparr>
                 (drag_addNode ty1 t1 rx1 ry1 (drag_mount drag_initial)))) =
           Some (initial_elements
             \<lparr>nodes := nodes initial_elements @
                 [new_node False ty1 t1 rx1 ry1, new_node True ty2 t2 rx2 ry2],
              edges := [\<lparr>edge_id = edge_name ''root'' (node_name t2), source = ''root'',
                         target = node_name t2\<rparr>]\<rparr>)"
proof -
  let ?r = "\<lparr>nd_id = ''root'', nd_label = ''Main Idea'', nd_type = Root\<rparr>"
  let ?s0 = "drag_mount drag_initial"
  let ?s1 = "drag_addNode ty1 t1 rx1 ry1 ?s0"
  let ?s2 = "drag_tap_node ?r ?s1"
  let ?g1 = "initial_elements\<lparr>nodes := nodes initial_elements @ [new_node False ty1 t1 rx1 ry1]\<rparr>"
  have s0: "cy ?s0 = Some initial_elements" "selectedNode ?s0 = None" "\<not> isDragging ?s0"
    by (simp_all add: drag_mount_def drag_initial_def)
  have f0: "\<not> has_node initial_elements (node_name t1)"
    by (simp add: has_node_def initial_elements_def)
  from s0(1) graph_inv_initial f0 s0(2) show c1: "cy ?s1 = Some ?g1"
    by (rule drag_addNode_unselected)
  from s0 have s2: "selectedNode ?s2 = Some ?r" "\<not> isDragging ?s2" "cy ?s2 = cy ?s1"
    by (simp_all add: drag_tap_node_def onNodeSelect_def)
  from s0(1) graph_inv_initial have "canvas_ok ?s1"
    by (intro canvas_ok_drag_addNode) (simp add: canvas_ok_def)
  with c1 have inv1: "graph_inv ?g1" by (simp add: canvas_ok_def)
  from assms have "node_name t2 \<noteq> node_name t1" using node_name_inj by blast
  then have f1: "\<not> has_node ?g1 (node_name t2)"
    by (simp add: has_node_def initial_elements_def)
  have r1: "has_node ?g1 (nd_id ?r)" by (simp add: has_node_def initial_elements_def)
  from c1 s2(3) have c2: "cy ?s2 = Some ?g1" by simp
  from drag_addNode_selected[OF c2 inv1 f1 s2(1) r1 s2(2), of ty2 rx2 ry2]
  show "cy (drag_addNode ty2 t2 rx2 ry2 ?s2) =
           Some (initial_elements
             \<lparr>nodes := nodes initial_elements @
                 [new_node False ty1 t1 rx1 ry1, new_node True ty2 t2 rx2 ry2],
              edges := [\<lparr>edge_id = edge_name ''root'' (node_name t2), source = ''root'',
                         target = node_name t2\<rparr>]\<rparr>)"
    by (simp add: initial_elements_def)
qed

text \<open>
  The handlers that the mount registers select and report the tapped node, or clear the
  selection; they leave \<open>isConnecting\<close> and \<open>firstNode\<close> as they are.
\<close>

lemma tap_node_connect_fields [simp]:
  "isConnecting (tap_node n s) = isConnecting s"
  "firstNode (tap_node n s) = firstNode s"
  "cy (tap_node n s) = cy s"
  by (simp_all add: tap_node_eq onNodeSelect_def)

lemma tap_background_connect_fields [simp]:
  "isConnecting (tap_background s) = isConnecting s"
  "firstNode (tap_background s) = firstNode s"
  "cy (tap_background s) = cy s"
  by (simp_all add: tap_background_eq onNodeSelect_def)


text \<open>
  During a drag the graph has no edge: the \<^verbatim>\<open>mousedown\<close> that began the drag has made
  the effect create a new instance, and neither \<open>drag_addNode\<close> nor the handlers insert
  an edge while \<open>isDragging\<close> is true.
\<close>

lemma edges_cy_add_node [simp]: "edges (cy_add_node g n) = edges g"
  by (simp add: cy_add_node_def)


text \<open>
  \<open>createEdge\<close> with two different ids, and the functions that add a node, insert no
  edge from a node to itself.
\<close>

lemma self_loops_cy_add_node [simp]: "self_loops (cy_add_node g n) = self_loops g"
  by (simp add: self_loops_def)




section \<open>The claims\<close>

subsection \<open>C1: one edge per pair of nodes\<close>

text \<open>
  Claim C1. Let the canvas be mounted with a well-formed graph \<open>g\<close>, and let \<open>a\<close> and
  \<open>b\<close> be two different nodes of \<open>g\<close>. When \<open>createEdge\<close> is called twice with the
  pair, each call in either argument order (\<open>(p, q)\<close> first, \<open>(p', q')\<close> second), then
  afterwards exactly one edge joins \<open>a\<close> and \<open>b\<close>, and the second call leaves the state
  as the first call left it. Further, after any sequence of \<open>createEdge\<close> calls, with
  any arguments, no pair of ids is joined by more than one edge. Every state a session
  reaches has a well-formed graph (\<open>connect_reachable_ok\<close>, \<open>drag_reachable_ok\<close>).
\<close>

theorem createEdge_twice_one_edge:
  assumes "cy s = Some g" "graph_inv g"
    and "has_node g a" "has_node g b" "a \<noteq> b"
    and "(p, q) = (a, b) \<or> (p, q) = (b, a)"
    and "(p', q') = (a, b) \<or> (p', q') = (b, a)"
  shows "(\<exists>g'. cy (createEdge p' q' (createEdge p q s)) = Some g' \<and>
               length (cy_edges g' a b) = 1) \<and>
         createEdge p' q' (createEdge p q s) = createEdge p q s \<and>
         (\<forall>calls. \<exists>g'. cy (fold (\<lambda>c. createEdge (fst c) (snd c)) calls s) = Some g' \<and>
               (\<forall>x y. length (cy_edges g' x y) \<le> 1))"
proof -
  from assms(3,4,6) have pq: "has_node g p" "has_node g q" by auto
  from createEdge_one_edge[OF assms(1,2) pq] obtain g1
    where g1: "cy (createEdge p q s) = Some g1" "length (cy_edges g1 p q) = 1" by blast
  from assms(6) g1(2) have one: "length (cy_edges g1 a b) = 1"
    using cy_edges_sym[of g1 a b] by auto
  with assms(7) have "cy_edges g1 p' q' \<noteq> []"
    using cy_edges_sym[of g1 a b] by auto
  with g1(1) have again: "createEdge p' q' (createEdge p q s) = createEdge p q s"
    by (rule createEdge_existing)
  from assms(2) have "\<forall>x y. length (cy_edges g x y) \<le> 1"
    using graph_inv_at_most_one by blast
  with assms(1) have "\<exists>g'. cy (fold (\<lambda>c. createEdge (fst c) (snd c)) calls s) = Some g' \<and>
      (\<forall>x y. length (cy_edges g' x y) \<le> 1)" for calls
    by (rule createEdge_calls_at_most_one)
  with again g1(1) one show ?thesis by simp
qed

text \<open>
  The theorem at the graph of the root and one more node.
\<close>

theorem createEdge_twice_one_edge_witness:
  "(\<exists>g'. cy (createEdge ''node-5'' ''root'' (createEdge ''root'' ''node-5''
        \<lparr>cy = Some \<lparr>nodes = [\<lparr>data = \<lparr>nd_id = ''root'', nd_label = ''Main Idea'', nd_type = Root\<rparr>,
                               position = \<lparr>pos_x = 400, pos_y = 300\<rparr>\<rparr>,
                             \<lparr>data = \<lparr>nd_id = ''node-5'', nd_label = ''New Idea'', nd_type = Primary\<rparr>,
                               position = \<lparr>pos_x = 300, pos_y = 200\<rparr>\<rparr>],
                    edges = []\<rparr>,
         selectedNode = None, isEditing = False, editText = [], notified = []\<rparr>)) = Some g' \<and>
     length (cy_edges g' ''root'' ''node-5'') = 1) \<and>
   createEdge ''node-5'' ''root'' (createEdge ''root'' ''node-5''
        \<lparr>cy = Some \<lparr>nodes = [\<lparr>data = \<lparr>nd_id = ''root'', nd_label = ''Main Idea'', nd_type = Root\<rparr>,
                               position = \<lparr>pos_x = 400, pos_y = 300\<rparr>\<rparr>,
                             \<lparr>data = \<lparr>nd_id = ''node-5'', nd_label = ''New Idea'', nd_type = Primary\<rparr>,
                               position = \<lparr>pos_x = 300, pos_y = 200\<rparr>\<rparr>],
                    edges = []\<rparr>,
         selectedNode = None, isEditing = False, editText = [], notified = []\<rparr>) =
   createEdge ''root'' ''node-5''
        \<lparr>cy = Some \<lparr>nodes = [\<lparr>data = \<lparr>nd_id = ''root'', nd_label = ''Main Idea'', nd_type = Root\<rparr>,
                               position = \<lparr>pos_x = 400, pos_y = 300\<rparr>\<rparr>,
                             \<lparr>data = \<lparr>nd_id = ''node-5'', nd_label = ''New Idea'', nd_type = Primary\<rparr>,
                               position = \<lparr>pos_x = 300, pos_y = 200\<rparr>\<rparr>],
                    edges = []\<rparr>,
         selectedNode = None, isEditing = False, editText = [], notified = []\<rparr>"
proof -
  let ?g = "\<lparr>nodes = [\<lparr>data = \<lparr>nd_id = ''root'', nd_label = ''Main Idea'', nd_type = Root\<rparr>,
                               position = \<lparr>pos_x = 400, pos_y = 300\<rparr>\<rparr>,
                             \<lparr>data = \<lparr>nd_id = ''node-5'', nd_label = ''New Idea'', nd_type = Primary\<rparr>,
                               position = \<lparr>pos_x = 300, pos_y = 200\<rparr>\<rparr>],
                    edges = []\<rparr>"
  let ?s = "\<lparr>cy = Some ?g, selectedNode = None, isEditing = False, editText = [], notified = []\<rparr>"
  have h1: "cy ?s = Some ?g" by simp
  have h2: "graph_inv ?g" by (simp add: graph_inv_def is_node_id_def is_digit_def)
  have h3: "has_node ?g ''root''" and h4: "has_node ?g ''node-5''" by (simp_all add: has_node_def)
  have h5: "''root'' \<noteq> ''node-5''" by simp
  have h6: "(''root'', ''node-5'') = (''root'', ''node-5'') \<or> (''root'', ''node-5'') = (''node-5'', ''root'')"
    by simp
  have h7: "(''node-5'', ''root'') = (''root'', ''node-5'') \<or> (''node-5'', ''root'') = (''node-5'', ''root'')"
    by simp
  from createEdge_twice_one_edge [OF h1 h2 h3 h4 h5 h6 h7] show ?thesis by blast
qed

subsection \<open>C2: connecting a node to itself\<close>




subsection \<open>C3: deleting a node removes its edges\<close>

text \<open>
  Claim C3. When the canvas is mounted and the selected node is a node of the graph,
  then after \<open>deleteSelected\<close> the graph has no node with the id of the selected node
  and no edge whose source or target is that id; the other nodes are kept and no edge
  is added. No node is selected afterwards, and \<open>onNodeSelect\<close> has been called with
  \<^verbatim>\<open>null\<close>. \<open>deleteSelected\<close> hands the removal to the library: the cascade is that
  of \<open>cy_remove\<close>.
\<close>

theorem deleteSelected_cascade:
  assumes "cy s = Some g" "selectedNode s = Some sel" "has_node g (nd_id sel)"
  shows "\<exists>g'. cy (deleteSelected s) = Some g' \<and>
              \<not> has_node g' (nd_id sel) \<and>
              (\<forall>e \<in> set (edges g'). source e \<noteq> nd_id sel \<and> target e \<noteq> nd_id sel) \<and>
              set (nodes g') = {n \<in> set (nodes g). nd_id (data n) \<noteq> nd_id sel} \<and>
              set (edges g') \<subseteq> set (edges g) \<and>
              selectedNode (deleteSelected s) = None \<and>
              notified (deleteSelected s) = notified s @ [None]"
  using assms
  by (auto simp: deleteSelected_def cy_remove_def has_node_def onNodeSelect_def)

text \<open>
  The theorem at the graph of the root, a second node and the edge between them, with
  the second node selected.
\<close>

theorem deleteSelected_cascade_witness:
  "\<exists>g'. cy (deleteSelected
        \<lparr>cy = Some \<lparr>nodes = [\<lparr>data = \<lparr>nd_id = ''root'', nd_label = ''Main Idea'', nd_type = Root\<rparr>,
                               position = \<lparr>pos_x = 400, pos_y = 300\<rparr>\<rparr>,
                             \<lparr>data = \<lparr>nd_id = ''node-5'', nd_label = ''New Idea'', nd_type = Primary\<rparr>,
                               position = \<lparr>pos_x = 300, pos_y = 200\<rparr>\<rparr>],
                    edges = [\<lparr>edge_id = ''edge-root-node-5'', source = ''root'', target = ''node-5''\<rparr>]\<rparr>,
         selectedNode = Some \<lparr>nd_id = ''node-5'', nd_label = ''New Idea'', nd_type = Primary\<rparr>,
         isEditing = False, editText = [], notified = [], isConnecting = False,
         firstNode = None\<rparr>) = Some g' \<and>
     \<not> has_node g' ''node-5'' \<and> edges g' = []"
proof -
  let ?n = "\<lparr>nd_id = ''node-5'', nd_label = ''New Idea'', nd_type = Primary\<rparr>"
  let ?e = "\<lparr>edge_id = ''edge-root-node-5'', source = ''root'', target = ''node-5''\<rparr>"
  let ?g = "\<lparr>nodes = [\<lparr>data = \<lparr>nd_id = ''root'', nd_label = ''Main Idea'', nd_type = Root\<rparr>,
                               position = \<lparr>pos_x = 400, pos_y = 300\<rparr>\<rparr>,
                     \<lparr>data = ?n, position = \<lparr>pos_x = 300, pos_y = 200\<rparr>\<rparr>],
             edges = [?e]\<rparr>"
  let ?s = "\<lparr>cy = Some ?g, selectedNode = Some ?n,
         isEditing = False, editText = [], notified = [], isConnecting = False,
         firstNode = None\<rparr>"
  have h1: "cy ?s = Some ?g" and h2: "selectedNode ?s = Some ?n" and h3: "has_node ?g (nd_id ?n)"
    by (simp_all add: has_node_def)
  from deleteSelected_cascade [OF h1 h2 h3] obtain g' where
    c: "cy (deleteSelected ?s) = Some g'"
    and n: "\<not> has_node g' (nd_id ?n)"
    and e: "\<forall>e \<in> set (edges g'). source e \<noteq> nd_id ?n \<and> target e \<noteq> nd_id ?n"
    and sub: "set (edges g') \<subseteq> set (edges ?g)"
    by blast
  have "edges g' = []"
  proof (cases "edges g'")
    case (Cons x xs)
    with sub have "x = ?e" by simp
    moreover from e Cons have "target x \<noteq> ''node-5''" by simp
    ultimately show ?thesis by simp
  qed simp
  with c n show ?thesis by simp
qed

subsection \<open>C4: node ids\<close>

text \<open>
  Claim C4, amended. The id of a new node is made from the clock alone, so two calls of
  \<open>addNode\<close> at one clock reading generate one id (the counterexample below). What
  holds: calls at pairwise different clock readings generate pairwise different ids;
  after any sequence of \<open>addNode\<close> calls the ids of the nodes of the graph are pairwise
  different (the library refuses the second element of an id); and when the clock
  readings are pairwise different and none of their ids is taken, every call inserts
  its node. This holds for the \<open>addNode\<close> of both variants.
\<close>

theorem addNode_ids_by_clock:
  assumes "cy s = Some g" "graph_inv g" "cy d = Some h" "graph_inv h"
  shows "(distinct (map call_now calls) \<longrightarrow> distinct (map (node_name \<circ> call_now) calls)) \<and>
         (\<exists>g'. cy (fold (\<lambda>c. addNode (call_type c) (call_now c) (call_rx c) (call_ry c)) calls s) =
               Some g' \<and>
            distinct (map (nd_id \<circ> data) (nodes g')) \<and>
            (distinct (map call_now calls) \<and>
             (\<forall>c \<in> set calls. \<not> has_node g (node_name (call_now c))) \<longrightarrow>
             map (nd_id \<circ> data) (nodes g') =
               map (nd_id \<circ> data) (nodes g) @ map (node_name \<circ> call_now) calls)) \<and>
         (\<exists>h'. cy (fold (\<lambda>c. drag_addNode (call_type c) (call_now c) (call_rx c) (call_ry c)) calls d) =
               Some h' \<and>
            distinct (map (nd_id \<circ> data) (nodes h')) \<and>
            (distinct (map call_now calls) \<and>
             (\<forall>c \<in> set calls. \<not> has_node h (node_name (call_now c))) \<longrightarrow>
             map (nd_id \<circ> data) (nodes h') =
               map (nd_id \<circ> data) (nodes h) @ map (node_name \<circ> call_now) calls))"
proof (intro conjI)
  have "inj node_name" by (rule injI) (rule node_name_inj)
  then show "distinct (map call_now calls) \<longrightarrow> distinct (map (node_name \<circ> call_now) calls)"
    by (simp add: distinct_map comp_def inj_on_def)
  from add_calls_node_ids[of addNode, OF addNode_node_ids assms(1,2), of calls]
  show "\<exists>g'. cy (fold (\<lambda>c. addNode (call_type c) (call_now c) (call_rx c) (call_ry c)) calls s) =
               Some g' \<and>
            distinct (map (nd_id \<circ> data) (nodes g')) \<and>
            (distinct (map call_now calls) \<and>
             (\<forall>c \<in> set calls. \<not> has_node g (node_name (call_now c))) \<longrightarrow>
             map (nd_id \<circ> data) (nodes g') =
               map (nd_id \<circ> data) (nodes g) @ map (node_name \<circ> call_now) calls)"
    by (auto simp: graph_inv_def)
  from add_calls_node_ids[of drag_addNode, OF drag_addNode_node_ids assms(3,4), of calls]
  show "\<exists>h'. cy (fold (\<lambda>c. drag_addNode (call_type c) (call_now c) (call_rx c) (call_ry c)) calls d) =
               Some h' \<and>
            distinct (map (nd_id \<circ> data) (nodes h')) \<and>
            (distinct (map call_now calls) \<and>
             (\<forall>c \<in> set calls. \<not> has_node h (node_name (call_now c))) \<longrightarrow>
             map (nd_id \<circ> data) (nodes h') =
               map (nd_id \<circ> data) (nodes h) @ map (node_name \<circ> call_now) calls)"
    by (auto simp: graph_inv_def)
qed

text \<open>
  The theorem at two calls, at the clock readings 5 and 7, on the fresh canvas.
\<close>

theorem addNode_ids_by_clock_witness:
  "(\<exists>g'. cy (fold (\<lambda>c. addNode (call_type c) (call_now c) (call_rx c) (call_ry c))
             [\<lparr>call_type = Primary, call_now = 5, call_rx = 0, call_ry = 0\<rparr>,
              \<lparr>call_type = Secondary, call_now = 7, call_rx = 1/2, call_ry = 1/2\<rparr>]
             (connect_mount connect_initial)) = Some g' \<and>
         map (nd_id \<circ> data) (nodes g') = [''root'', ''node-5'', ''node-7'']) \<and>
   (\<exists>h'. cy (fold (\<lambda>c. drag_addNode (call_type c) (call_now c) (call_rx c) (call_ry c))
             [\<lparr>call_type = Primary, call_now = 5, call_rx = 0, call_ry = 0\<rparr>,
              \<lparr>call_type = Secondary, call_now = 7, call_rx = 1/2, call_ry = 1/2\<rparr>]
             (drag_mount drag_initial)) = Some h' \<and>
         map (nd_id \<circ> data) (nodes h') = [''root'', ''node-5'', ''node-7''])"
proof -
  let ?calls = "[\<lparr>call_type = Primary, call_now = 5, call_rx = 0, call_ry = 0\<rparr>,
              \<lparr>call_type = Secondary, call_now = 7, call_rx = 1/2, call_ry = 1/2\<rparr>]"
  have h1: "cy (connect_mount connect_initial) = Some initial_elements"
    and h3: "cy (drag_mount drag_initial) = Some initial_elements"
    by (simp_all add: connect_mount_def drag_mount_def)
  have h2: "graph_inv initial_elements"
    by (simp add: graph_inv_def initial_elements_def is_node_id_def)
  have d: "distinct (map call_now ?calls)" by simp
  have n: "node_name 5 = ''node-5''" "node_name 7 = ''node-7''"
    by (simp_all add: node_name_def string_of_nat.simps digit_char_def)
  have f: "\<forall>c \<in> set ?calls. \<not> has_node initial_elements (node_name (call_now c))"
    by (simp add: n has_node_def initial_elements_def)
  have i: "map (nd_id \<circ> data) (nodes initial_elements) = [''root'']"
    by (simp add: initial_elements_def)
  note t = addNode_ids_by_clock [OF h1 h2 h3 h2, of ?calls]
  from t d f obtain g' where
    "cy (fold (\<lambda>c. addNode (call_type c) (call_now c) (call_rx c) (call_ry c)) ?calls
        (connect_mount connect_initial)) = Some g'"
    "map (nd_id \<circ> data) (nodes g') =
       map (nd_id \<circ> data) (nodes initial_elements) @ map (node_name \<circ> call_now) ?calls"
    by blast
  moreover from t d f obtain h' where
    "cy (fold (\<lambda>c. drag_addNode (call_type c) (call_now c) (call_rx c) (call_ry c)) ?calls
        (drag_mount drag_initial)) = Some h'"
    "map (nd_id \<circ> data) (nodes h') =
       map (nd_id \<circ> data) (nodes initial_elements) @ map (node_name \<circ> call_now) ?calls"
    by blast
  ultimately show ?thesis by (simp add: i n)
qed

text \<open>
  The claim as stated fails: two calls at the clock reading 5 generate the same id, and
  the graph ends with two nodes.
\<close>

theorem addNode_same_clock_counterexample:
  "\<not> distinct (map (node_name \<circ> call_now)
       [\<lparr>call_type = Primary, call_now = 5, call_rx = 0, call_ry = 0\<rparr>,
        \<lparr>call_type = Secondary, call_now = 5, call_rx = 1/2, call_ry = 1/2\<rparr>]) \<and>
   map_option (map (nd_id \<circ> data) \<circ> nodes)
     (cy (addNode Secondary 5 (1/2) (1/2) (addNode Primary 5 0 0 (connect_mount connect_initial)))) =
     Some [''root'', ''node-5'']"
  by (simp add: addNode_def connect_mount_def connect_initial_def initial_elements_def
        cy_add_node_def hasElementWithId_def has_node_def new_node_def node_name_def
        string_of_nat.simps digit_char_def)

subsection \<open>C5: a blank label is not committed\<close>

text \<open>
  Claim C5. When the edit text consists of white space only (the empty text included),
  \<open>saveEdit\<close>, which Enter and the Save button call, returns the state unchanged:
  the graph, and so the label of the node, is as before, the selected node is as
  before, and \<open>isEditing\<close> keeps its value, so the open editor stays open.
\<close>

theorem saveEdit_blank_text_rejected:
  assumes "\<forall>c \<in> set (editText s). is_space c"
  shows "saveEdit s = s"
  using assms by (simp add: saveEdit_def trim_blank split: option.splits)

text \<open>
  The theorem at an open editor that holds a single space.
\<close>

theorem saveEdit_blank_text_rejected_witness:
  "saveEdit
     \<lparr>cy = Some initial_elements,
      selectedNode = Some \<lparr>nd_id = ''root'', nd_label = ''Main Idea'', nd_type = Root\<rparr>,
      isEditing = True, editText = '' '', notified = [], isConnecting = False, firstNode = None\<rparr> =
     \<lparr>cy = Some initial_elements,
      selectedNode = Some \<lparr>nd_id = ''root'', nd_label = ''Main Idea'', nd_type = Root\<rparr>,
      isEditing = True, editText = '' '', notified = [], isConnecting = False, firstNode = None\<rparr>"
proof -
  have h: "\<forall>c \<in> set (editText
     \<lparr>cy = Some initial_elements,
      selectedNode = Some \<lparr>nd_id = ''root'', nd_label = ''Main Idea'', nd_type = Root\<rparr>,
      isEditing = True, editText = '' '', notified = [], isConnecting = False, firstNode = None\<rparr>).
     is_space c"
    by (simp add: is_space_def)
  show ?thesis using saveEdit_blank_text_rejected [OF h] .
qed

subsection \<open>C6: aborting a connection\<close>



subsection \<open>C7: the second tap of the two-click variant\<close>

text \<open>
  Claim C7 does not hold of the code. No tap on a node changes the graph, whichever
  render registered the handler and whatever the state. At the mounted component, whose
  handlers are those of the first render: after the addition of a node at clock reading
  5, Connect, a tap on the root and a tap on the new node, the graph has no edge,
  connecting mode is still on and no first node is held; the new node is selected and
  reported, as by a tap outside connecting mode.
\<close>

theorem tap_second_node_adds_no_edge:
  "cy (tap_node_of r threw b s) = cy s \<and>
   cy (tap_node \<lparr>nd_id = ''node-5'', nd_label = ''New Idea'', nd_type = Primary\<rparr>
         (tap_node \<lparr>nd_id = ''root'', nd_label = ''Main Idea'', nd_type = Root\<rparr>
            (startConnecting (addNode Primary 5 0 0 (connect_mount connect_initial))))) =
     Some (initial_elements\<lparr>nodes := nodes initial_elements @ [new_node False Primary 5 0 0]\<rparr>) \<and>
   isConnecting
     (tap_node \<lparr>nd_id = ''node-5'', nd_label = ''New Idea'', nd_type = Primary\<rparr>
        (tap_node \<lparr>nd_id = ''root'', nd_label = ''Main Idea'', nd_type = Root\<rparr>
           (startConnecting (addNode Primary 5 0 0 (connect_mount connect_initial))))) \<and>
   firstNode
     (tap_node \<lparr>nd_id = ''root'', nd_label = ''Main Idea'', nd_type = Root\<rparr>
        (startConnecting (addNode Primary 5 0 0 (connect_mount connect_initial)))) = None \<and>
   firstNode
     (tap_node \<lparr>nd_id = ''node-5'', nd_label = ''New Idea'', nd_type = Primary\<rparr>
        (tap_node \<lparr>nd_id = ''root'', nd_label = ''Main Idea'', nd_type = Root\<rparr>
           (startConnecting (addNode Primary 5 0 0 (connect_mount connect_initial))))) = None \<and>
   selectedNode
     (tap_node \<lparr>nd_id = ''node-5'', nd_label = ''New Idea'', nd_type = Primary\<rparr>
        (tap_node \<lparr>nd_id = ''root'', nd_label = ''Main Idea'', nd_type = Root\<rparr>
           (startConnecting (addNode Primary 5 0 0 (connect_mount connect_initial))))) =
     Some \<lparr>nd_id = ''node-5'', nd_label = ''New Idea'', nd_type = Primary\<rparr> \<and>
   notified
     (tap_node \<lparr>nd_id = ''node-5'', nd_label = ''New Idea'', nd_type = Primary\<rparr>
        (tap_node \<lparr>nd_id = ''root'', nd_label = ''Main Idea'', nd_type = Root\<rparr>
           (startConnecting (addNode Primary 5 0 0 (connect_mount connect_initial))))) =
     [None, Some \<lparr>nd_id = ''root'', nd_label = ''Main Idea'', nd_type = Root\<rparr>,
      Some \<lparr>nd_id = ''node-5'', nd_label = ''New Idea'', nd_type = Primary\<rparr>]"
proof -
  let ?s0 = "connect_mount connect_initial"
  have s0: "cy ?s0 = Some initial_elements" "selectedNode ?s0 = None"
    by (simp_all add: connect_mount_def connect_initial_def)
  have f0: "\<not> has_node initial_elements (node_name 5)"
    by (simp add: has_node_def initial_elements_def)
  have n0: "notified (addNode Primary 5 0 0 ?s0) = []"
    by (simp add: connect_mount_def connect_initial_def)
  note g = addNode_unselected [OF s0(1) graph_inv_initial f0 s0(2), of Primary 0 0]
  show ?thesis
    using g n0
    by (simp add: tap_node_eq startConnecting_def onNodeSelect_def)
qed

subsection \<open>C8: the initial graph and auto-connection of a new node\<close>

text \<open>
  Claim C8, amended. The graph starts with the root node alone (id \<open>root\<close>, label
  \<open>Main Idea\<close>, type root) and no edge. In both variants, adding a node to the fresh
  canvas gives two nodes and no edge; selecting the root and adding a second node at
  another clock reading gives three nodes and the one edge from the root to the new
  node. In general, when a node of the graph is selected and the generated id is new,
  \<open>addNode\<close> appends the node, and it appends the edge from the selected node to the new
  node exactly when no connection is in progress: in connecting mode (two-click variant)
  and during a drag (drag variant) no edge is inserted (the counterexample below).
\<close>

theorem addNode_auto_connect:
  assumes "cy s = Some g" "graph_inv g" "\<not> has_node g (node_name now)"
    and "selectedNode s = Some sel" "has_node g (nd_id sel)"
    and "cy d = Some h" "graph_inv h" "\<not> has_node h (node_name now)"
    and "selectedNode d = Some dsel" "has_node h (nd_id dsel)"
    and "t1 \<noteq> t2"
  shows "initial_elements =
           \<lparr>nodes = [\<lparr>data = \<lparr>nd_id = ''root'', nd_label = ''Main Idea'', nd_type = Root\<rparr>,
                      position = \<lparr>pos_x = 400, pos_y = 300\<rparr>\<rparr>], edges = []\<rparr> \<and>
         cy (connect_mount connect_initial) = Some initial_elements \<and>
         cy (drag_mount drag_initial) = Some initial_elements \<and>
         map_option (\<lambda>g. (map (nd_id \<circ> data) (nodes g), edges g))
           (cy (addNode Primary t1 rx1 ry1 (connect_mount connect_initial))) =
           Some ([''root'', node_name t1], []) \<and>
         map_option (\<lambda>g. (map (nd_id \<circ> data) (nodes g), edges g))
           (cy (addNode Primary t2 rx2 ry2
             (tap_node \<lparr>nd_id = ''root'', nd_label = ''Main Idea'', nd_type = Root\<rparr>
               (addNode Primary t1 rx1 ry1 (connect_mount connect_initial))))) =
           Some ([''root'', node_name t1, node_name t2],
                 [\<lparr>edge_id = edge_name ''root'' (node_name t2), source = ''root'',
                   target = node_name t2\<rparr>]) \<and>
         map_option (\<lambda>g. (map (nd_id \<circ> data) (nodes g), edges g))
           (cy (drag_addNode Primary t1 rx1 ry1 (drag_mount drag_initial))) =
           Some ([''root'', node_name t1], []) \<and>
         map_option (\<lambda>g. (map (nd_id \<circ> data) (nodes g), edges g))
           (cy (drag_addNode Primary t2 rx2 ry2
             (drag_tap_node \<lparr>nd_id = ''root'', nd_label = ''Main Idea'', nd_type = Root\<rparr>
               (drag_addNode Primary t1 rx1 ry1 (drag_mount drag_initial))))) =
           Some ([''root'', node_name t1, node_name t2],
                 [\<lparr>edge_id = edge_name ''root'' (node_name t2), source = ''root'',
                   target = node_name t2\<rparr>]) \<and>
         cy (addNode ty now rx ry s) =
           Some (if isConnecting s then g\<lparr>nodes := nodes g @ [new_node True ty now rx ry]\<rparr>
                 else g\<lparr>nodes := nodes g @ [new_node True ty now rx ry],
                        edges := edges g @
                          [\<lparr>edge_id = edge_name (nd_id sel) (node_name now), source = nd_id sel,
                            target = node_name now\<rparr>]\<rparr>) \<and>
         cy (drag_addNode ty now rx ry d) =
           Some (if isDragging d then h\<lparr>nodes := nodes h @ [new_node True ty now rx ry]\<rparr>
                 else h\<lparr>nodes := nodes h @ [new_node True ty now rx ry],
                        edges := edges h @
                          [\<lparr>edge_id = edge_name (nd_id dsel) (node_name now), source = nd_id dsel,
                            target = node_name now\<rparr>]\<rparr>)"
proof (intro conjI)
  show "initial_elements =
           \<lparr>nodes = [\<lparr>data = \<lparr>nd_id = ''root'', nd_label = ''Main Idea'', nd_type = Root\<rparr>,
                      position = \<lparr>pos_x = 400, pos_y = 300\<rparr>\<rparr>], edges = []\<rparr>"
    by (simp add: initial_elements_def)
  show "cy (connect_mount connect_initial) = Some initial_elements"
    by (simp add: connect_mount_def)
  show "cy (drag_mount drag_initial) = Some initial_elements"
    by (simp add: drag_mount_def)
  show "map_option (\<lambda>g. (map (nd_id \<circ> data) (nodes g), edges g))
           (cy (addNode Primary t1 rx1 ry1 (connect_mount connect_initial))) =
           Some ([''root'', node_name t1], [])"
    by (simp add: connect_scenario(1)[OF assms(11)] initial_elements_def)
  show "map_option (\<lambda>g. (map (nd_id \<circ> data) (nodes g), edges g))
           (cy (addNode Primary t2 rx2 ry2
             (tap_node \<lparr>nd_id = ''root'', nd_label = ''Main Idea'', nd_type = Root\<rparr>
               (addNode Primary t1 rx1 ry1 (connect_mount connect_initial))))) =
           Some ([''root'', node_name t1, node_name t2],
                 [\<lparr>edge_id = edge_name ''root'' (node_name t2), source = ''root'',
                   target = node_name t2\<rparr>])"
    by (simp add: connect_scenario(2)[OF assms(11)] initial_elements_def)
  show "map_option (\<lambda>g. (map (nd_id \<circ> data) (nodes g), edges g))
           (cy (drag_addNode Primary t1 rx1 ry1 (drag_mount drag_initial))) =
           Some ([''root'', node_name t1], [])"
    by (simp add: drag_scenario(1)[OF assms(11)] initial_elements_def)
  show "map_option (\<lambda>g. (map (nd_id \<circ> data) (nodes g), edges g))
           (cy (drag_addNode Primary t2 rx2 ry2
             (drag_tap_node \<lparr>nd_id = ''root'', nd_label = ''Main Idea'', nd_type = Root\<rparr>
               (drag_addNode Primary t1 rx1 ry1 (drag_mount drag_initial))))) =
           Some ([''root'', node_name t1, node_name t2],
                 [\<lparr>edge_id = edge_name ''root'' (node_name t2), source = ''root'',
                   target = node_name t2\<rparr>])"
    by (simp add: drag_scenario(2)[OF assms(11)] initial_elements_def)
  show "cy (addNode ty now rx ry s) =
           Some (if isConnecting s then g\<lparr>nodes := nodes g @ [new_node True ty now rx ry]\<rparr>
                 else g\<lparr>nodes := nodes g @ [new_node True ty now rx ry],
                        edges := edges g @
                          [\<lparr>edge_id = edge_name (nd_id sel) (node_name now), source = nd_id sel,
                            target = node_name now\<rparr>]\<rparr>)"
  proof (cases "isConnecting s")
    case True
    from addNode_connecting[OF assms(1,2,3) True] assms(4) True show ?thesis by simp
  next
    case False
    from addNode_selected[OF assms(1,2,3,4,5) False] False show ?thesis by simp
  qed
  show "cy (drag_addNode ty now rx ry d) =
           Some (if isDragging d then h\<lparr>nodes := nodes h @ [new_node True ty now rx ry]\<rparr>
                 else h\<lparr>nodes := nodes h @ [new_node True ty now rx ry],
                        edges := edges h @
                          [\<lparr>edge_id = edge_name (nd_id dsel) (node_name now), source = nd_id dsel,
                            target = node_name now\<rparr>]\<rparr>)"
  proof (cases "isDragging d")
    case True
    with assms(6,7,8,9) show ?thesis
      by (simp add: drag_addNode_def cy_add_new_node)
  next
    case False
    from drag_addNode_selected[OF assms(6,7,8,9,10) False] False show ?thesis by simp
  qed
qed

text \<open>
  The theorem at the clock readings 5 and 7, with the root selected.
\<close>

theorem addNode_auto_connect_witness:
  "map_option (\<lambda>g. (map (nd_id \<circ> data) (nodes g), edges g))
     (cy (addNode Primary 7 0 0
       (tap_node \<lparr>nd_id = ''root'', nd_label = ''Main Idea'', nd_type = Root\<rparr>
         (addNode Primary 5 0 0 (connect_mount connect_initial))))) =
     Some ([''root'', ''node-5'', ''node-7''],
           [\<lparr>edge_id = ''edge-root-node-7'', source = ''root'', target = ''node-7''\<rparr>]) \<and>
   map_option edges
     (cy (addNode Accent 5 0 0
       (tap_node \<lparr>nd_id = ''root'', nd_label = ''Main Idea'', nd_type = Root\<rparr>
         (connect_mount connect_initial)))) =
     Some [\<lparr>edge_id = ''edge-root-node-5'', source = ''root'', target = ''node-5''\<rparr>] \<and>
   map_option edges
     (cy (drag_addNode Accent 5 0 0
       (drag_tap_node \<lparr>nd_id = ''root'', nd_label = ''Main Idea'', nd_type = Root\<rparr>
         (drag_mount drag_initial)))) =
     Some [\<lparr>edge_id = ''edge-root-node-5'', source = ''root'', target = ''node-5''\<rparr>]"
proof -
  let ?r = "\<lparr>nd_id = ''root'', nd_label = ''Main Idea'', nd_type = Root\<rparr>"
  let ?s = "tap_node ?r (connect_mount connect_initial)"
  let ?d = "drag_tap_node ?r (drag_mount drag_initial)"
  have n: "node_name 5 = ''node-5''" "node_name 7 = ''node-7''"
    by (simp_all add: node_name_def string_of_nat.simps digit_char_def)
  have h1: "cy ?s = Some initial_elements" and h4: "selectedNode ?s = Some ?r"
    and c: "\<not> isConnecting ?s"
    by (simp_all add: tap_node_eq connect_mount_def connect_initial_def onNodeSelect_def)
  have h6: "cy ?d = Some initial_elements" and h9: "selectedNode ?d = Some ?r"
    and dr: "\<not> isDragging ?d"
    by (simp_all add: drag_tap_node_def drag_mount_def drag_initial_def onNodeSelect_def)
  have h2: "graph_inv initial_elements"
    by (simp add: graph_inv_def initial_elements_def is_node_id_def)
  have h3: "\<not> has_node initial_elements (node_name 5)"
    by (simp add: n has_node_def initial_elements_def)
  have h5: "has_node initial_elements (nd_id ?r)"
    by (simp add: has_node_def initial_elements_def)
  have h11: "(5::nat) \<noteq> 7" by simp
  note t = addNode_auto_connect [OF h1 h2 h3 h4 h5 h6 h2 h3 h9 h5 h11,
      of 0 0 0 0 Accent 0 0]
  from t have a: "map_option (\<lambda>g. (map (nd_id \<circ> data) (nodes g), edges g))
     (cy (addNode Primary 7 0 0 (tap_node ?r (addNode Primary 5 0 0 (connect_mount connect_initial))))) =
     Some ([''root'', node_name 5, node_name 7],
           [\<lparr>edge_id = edge_name ''root'' (node_name 7), source = ''root'',
             target = node_name 7\<rparr>])"
    by blast
  from t c have b: "cy (addNode Accent 5 0 0 ?s) =
      Some (initial_elements\<lparr>nodes := nodes initial_elements @ [new_node True Accent 5 0 0],
         edges := edges initial_elements @
           [\<lparr>edge_id = edge_name (nd_id ?r) (node_name 5), source = nd_id ?r,
             target = node_name 5\<rparr>]\<rparr>)"
    by simp
  from t dr have e: "cy (drag_addNode Accent 5 0 0 ?d) =
      Some (initial_elements\<lparr>nodes := nodes initial_elements @ [new_node True Accent 5 0 0],
         edges := edges initial_elements @
           [\<lparr>edge_id = edge_name (nd_id ?r) (node_name 5), source = nd_id ?r,
             target = node_name 5\<rparr>]\<rparr>)"
    by simp
  show ?thesis
  proof (intro conjI)
    from a show "map_option (\<lambda>g. (map (nd_id \<circ> data) (nodes g), edges g))
     (cy (addNode Primary 7 0 0 (tap_node ?r (addNode Primary 5 0 0 (connect_mount connect_initial))))) =
     Some ([''root'', ''node-5'', ''node-7''],
           [\<lparr>edge_id = ''edge-root-node-7'', source = ''root'', target = ''node-7''\<rparr>])"
      by (simp add: n edge_name_def)
    show "map_option edges (cy (addNode Accent 5 0 0 ?s)) =
     Some [\<lparr>edge_id = ''edge-root-node-5'', source = ''root'', target = ''node-5''\<rparr>]"
      by (simp add: b n edge_name_def initial_elements_def)
    show "map_option edges (cy (drag_addNode Accent 5 0 0 ?d)) =
     Some [\<lparr>edge_id = ''edge-root-node-5'', source = ''root'', target = ''node-5''\<rparr>]"
      by (simp add: e n edge_name_def initial_elements_def)
  qed
qed

text \<open>
  The claim as stated fails: in connecting mode, with the root selected, \<open>addNode\<close>
  inserts the node and no edge.
\<close>

theorem addNode_while_connecting_counterexample:
  "selectedNode (tap_node \<lparr>nd_id = ''root'', nd_label = ''Main Idea'', nd_type = Root\<rparr>
       (startConnecting (connect_mount connect_initial))) =
     Some \<lparr>nd_id = ''root'', nd_label = ''Main Idea'', nd_type = Root\<rparr> \<and>
   map_option (\<lambda>g. (map (nd_id \<circ> data) (nodes g), edges g))
     (cy (addNode Primary 5 0 0
       (tap_node \<lparr>nd_id = ''root'', nd_label = ''Main Idea'', nd_type = Root\<rparr>
         (startConnecting (connect_mount connect_initial))))) =
     Some ([''root'', ''node-5''], [])"
  by (simp add: addNode_def tap_node_eq startConnecting_def connect_mount_def
        connect_initial_def onNodeSelect_def initial_elements_def cy_add_node_def
        hasElementWithId_def has_node_def new_node_def node_name_def string_of_nat.simps
        digit_char_def)

subsection \<open>C9: notification of the host\<close>

text \<open>
  Claim C9. The code at the input: select the root by a tap, open the editor, type
  \<open>Topic\<close> and save. The tap calls \<open>onNodeSelect\<close> with the root's data. \<open>saveEdit\<close>
  then replaces the selected node by the data with the new label and calls
  \<open>onNodeSelect\<close> not at all, in either variant: the host has been told of the label
  \<open>Main Idea\<close> only. The delete that follows calls \<open>onNodeSelect\<close> with \<^verbatim>\<open>null\<close>, as
  every other handler that sets the selected node does.
\<close>

theorem saveEdit_without_onNodeSelect:
  "notified (tap_node \<lparr>nd_id = ''root'', nd_label = ''Main Idea'', nd_type = Root\<rparr>
      (connect_mount connect_initial)) =
     [Some \<lparr>nd_id = ''root'', nd_label = ''Main Idea'', nd_type = Root\<rparr>] \<and>
   selectedNode (saveEdit (setEditText ''Topic'' (startEditing
      (tap_node \<lparr>nd_id = ''root'', nd_label = ''Main Idea'', nd_type = Root\<rparr>
         (connect_mount connect_initial))))) =
     Some \<lparr>nd_id = ''root'', nd_label = ''Topic'', nd_type = Root\<rparr> \<and>
   notified (saveEdit (setEditText ''Topic'' (startEditing
      (tap_node \<lparr>nd_id = ''root'', nd_label = ''Main Idea'', nd_type = Root\<rparr>
         (connect_mount connect_initial))))) =
     [Some \<lparr>nd_id = ''root'', nd_label = ''Main Idea'', nd_type = Root\<rparr>] \<and>
   notified (saveEdit (setEditText ''Topic'' (startEditing
      (drag_tap_node \<lparr>nd_id = ''root'', nd_label = ''Main Idea'', nd_type = Root\<rparr>
         (drag_mount drag_initial))))) =
     [Some \<lparr>nd_id = ''root'', nd_label = ''Main Idea'', nd_type = Root\<rparr>] \<and>
   notified (deleteSelected (saveEdit (setEditText ''Topic'' (startEditing
      (tap_node \<lparr>nd_id = ''root'', nd_label = ''Main Idea'', nd_type = Root\<rparr>
         (connect_mount connect_initial)))))) =
     [Some \<lparr>nd_id = ''root'', nd_label = ''Main Idea'', nd_type = Root\<rparr>, None]"
  by (simp add: saveEdit_def deleteSelected_def setEditText_def startEditing_def tap_node_eq
        drag_tap_node_def connect_mount_def connect_initial_def drag_mount_def drag_initial_def
        onNodeSelect_def trim_def is_space_def)

subsection \<open>C10: tapping the held first node again\<close>


end
